theory Spec2Isabelle
  imports Main "HOL-Library.Word"
begin

section \<open>The hexadecimal serial protocol (HexProtocol.h)\<close>

text \<open>
  A shallow embedding of the protocol engine \<^verbatim>\<open>hprot::HexProtocolBase\<close> and of its two
  derived classes, \<^verbatim>\<open>StreamHexProtocol\<close> (the Arduino slave) and
  \<^verbatim>\<open>DeviceHexProtocol\<close> (the host). Bytes on the serial line are 8-bit words. A C
  string is the list of its characters before the terminating NUL.
\<close>

subsection \<open>Protocol types and constants\<close>

type_synonym prot_byte_t = "8 word"
type_synonym prot_cmd_t = "8 word"
type_synonym prot_chan_t = "8 word"
type_synonym prot_long_t = "32 word"
type_synonym prot_ulong_t = "32 word"
type_synonym prot_size_t = "16 word"

text \<open>\<^verbatim>\<open>ASCII_NAK\<close> and \<^verbatim>\<open>ASCII_EOT\<close> of AsciiCodes.h.\<close>

definition PROT_ERROR :: prot_cmd_t where
  "PROT_ERROR = 0x15"

definition PROT_TERM_CHAR :: prot_byte_t where
  "PROT_TERM_CHAR = 0x04"

definition PROT_RADIX :: nat where
  "PROT_RADIX = 16"

text \<open>\<^verbatim>\<open>2 * sizeof(prot_ulong_t) + 2\<close>, with \<^verbatim>\<open>sizeof(prot_ulong_t) = 4\<close>.\<close>

definition PROT_HEX_BUFF_SIZE :: nat where
  "PROT_HEX_BUFF_SIZE = 2 * 4 + 2"

definition SUBCMD_ARRAY_SIZE :: prot_cmd_t where
  "SUBCMD_ARRAY_SIZE = 0x01"

definition SUBCMD_ARRAY_STARTING :: prot_cmd_t where
  "SUBCMD_ARRAY_STARTING = 0x02"

definition SUBCMD_ARRAY_ELEMENT :: prot_cmd_t where
  "SUBCMD_ARRAY_ELEMENT = 0x03"

definition SUBCMD_ARRAY_FINISHED :: prot_cmd_t where
  "SUBCMD_ARRAY_FINISHED = 0x04"

text \<open>The wire bytes of an ASCII literal, to write payloads as text.\<close>

definition ascii :: "string \<Rightarrow> prot_byte_t list" where
  "ascii cs = map of_char cs"

subsection \<open>The C library functions the codec calls\<close>

text \<open>
  \<^verbatim>\<open>ultoa\<close>, \<^verbatim>\<open>strtoul\<close>, \<^verbatim>\<open>strchr\<close> and \<^verbatim>\<open>strlen\<close> belong to the C library, not to the
  repository. They are written out here as the C standard (and avr-libc, for \<^verbatim>\<open>ultoa\<close>)
  describe them, for \<^verbatim>\<open>unsigned long\<close> of 32 bits, which HexProtocol.h asserts.
\<close>

text \<open>One digit of \<^verbatim>\<open>ultoa\<close>: \<^verbatim>\<open>'0' + d\<close> below ten, \<^verbatim>\<open>'a' + d - 10\<close> from ten on.\<close>

definition hexdigit :: "nat \<Rightarrow> prot_byte_t" where
  "hexdigit d = (if d < 10 then 0x30 + of_nat d else 0x61 + of_nat (d - 10))"

text \<open>\<^verbatim>\<open>ultoa(value, buf, 16)\<close>: the shortest lowercase hexadecimal text, \<^verbatim>\<open>"0"\<close> for zero.\<close>

function ultoa16 :: "nat \<Rightarrow> prot_byte_t list" where
  "ultoa16 n = (if n < 16 then [hexdigit n] else ultoa16 (n div 16) @ [hexdigit (n mod 16)])"
  by pat_completeness auto
termination
  by (relation "measure id") auto

declare ultoa16.simps [simp del]

text \<open>
  \<^verbatim>\<open>prot_ultohexstr(value, buf, PROT_RADIX)\<close>. The third argument is the radix on the
  host and a buffer size on the AVR side, where \<^verbatim>\<open>PROT_RADIX\<close> passes the size check
  \<^verbatim>\<open>__size < PROT_HEX_BUFF_SIZE\<close>; both end in \<^verbatim>\<open>ultoa\<close> with radix 16.
\<close>

definition prot_ultohexstr :: "prot_ulong_t \<Rightarrow> prot_byte_t list" where
  "prot_ultohexstr val = ultoa16 (unat val)"

text \<open>\<^verbatim>\<open>isspace\<close> in the C locale: space, and tab to carriage return.\<close>

definition isspace :: "prot_byte_t \<Rightarrow> bool" where
  "isspace c \<longleftrightarrow> c = 0x20 \<or> (0x09 \<le> c \<and> c \<le> 0x0d)"

text \<open>The value of a character as a digit of radix 16, if it is one.\<close>

definition digit_value :: "prot_byte_t \<Rightarrow> nat option" where
  "digit_value c =
     (if 0x30 \<le> c \<and> c \<le> 0x39 then Some (unat (c - 0x30))
      else if 0x61 \<le> c \<and> c \<le> 0x66 then Some (unat (c - 0x61) + 10)
      else if 0x41 \<le> c \<and> c \<le> 0x46 then Some (unat (c - 0x41) + 10)
      else None)"

text \<open>The number read from the longest prefix of digits, with the accumulator \<open>acc\<close>.\<close>

fun digits_value :: "nat \<Rightarrow> prot_byte_t list \<Rightarrow> nat" where
  "digits_value acc [] = acc"
| "digits_value acc (c # cs) =
     (case digit_value c of
        None \<Rightarrow> acc
      | Some d \<Rightarrow> digits_value (acc * 16 + d) cs)"

text \<open>
  \<^verbatim>\<open>strtoul(s, nullptr, 16)\<close>: skip white space, take an optional sign and an optional
  \<^verbatim>\<open>0x\<close> prefix, read digits as long as there are some; a value beyond \<^verbatim>\<open>ULONG_MAX\<close>
  gives \<^verbatim>\<open>ULONG_MAX\<close>, and a minus sign negates the result in the unsigned type.
\<close>

definition strtoul :: "prot_byte_t list \<Rightarrow> prot_ulong_t" where
  "strtoul s =
     (let s1 = dropWhile isspace s;
          neg = (case s1 of [] \<Rightarrow> False | c # _ \<Rightarrow> c = 0x2d);
          s2 = (case s1 of [] \<Rightarrow> [] | c # r \<Rightarrow> if c = 0x2d \<or> c = 0x2b then r else s1);
          s3 = (case s2 of
                  a # b # r \<Rightarrow> if a = 0x30 \<and> (b = 0x78 \<or> b = 0x58) then r else s2
                | _ \<Rightarrow> s2);
          v = digits_value 0 s3
      in if v > 0xFFFFFFFF then 0xFFFFFFFF
         else if neg then - of_nat v
         else of_nat v)"

text \<open>The C string held by a buffer: its bytes before the first NUL.\<close>

definition c_str :: "prot_byte_t list \<Rightarrow> prot_byte_t list" where
  "c_str buf = takeWhile (\<lambda>c. c \<noteq> 0) buf"

definition strlen :: "prot_byte_t list \<Rightarrow> nat" where
  "strlen buf = length (c_str buf)"

text \<open>\<^verbatim>\<open>strchr(s, c)\<close>: the rest of the string from the first \<open>c\<close> on, or a null pointer.\<close>

definition strchr :: "prot_byte_t list \<Rightarrow> prot_byte_t \<Rightarrow> prot_byte_t list option" where
  "strchr s c = (case dropWhile (\<lambda>x. x \<noteq> c) s of [] \<Rightarrow> None | r \<Rightarrow> Some r)"

subsection \<open>The serial transports behind the two derived classes\<close>

text \<open>
  The Arduino \<^verbatim>\<open>Stream\<close> and the Micro-Manager serial port are outside the repository.
  A line is modelled by the bytes still to arrive on it (\<open>rx\<close>) and the bytes written to
  it so far (\<open>tx\<close>); a read that finds \<open>rx\<close> exhausted has run into the timeout. A write
  to an open line takes every byte.
\<close>

text \<open>
  \<^verbatim>\<open>Stream::readBytesUntil(terminator, buffer, length)\<close>: reads up to \<open>length\<close> bytes and
  stops early at a timeout or at the terminator, which is consumed and not stored.
  Returns the bytes stored and the bytes left on the line.
\<close>

fun Stream_readBytesUntil ::
  "prot_byte_t \<Rightarrow> nat \<Rightarrow> prot_byte_t list \<Rightarrow> prot_byte_t list \<times> prot_byte_t list" where
  "Stream_readBytesUntil t 0 inp = ([], inp)"
| "Stream_readBytesUntil t (Suc n) [] = ([], [])"
| "Stream_readBytesUntil t (Suc n) (c # inp) =
     (if c = t then ([], inp)
      else (case Stream_readBytesUntil t n inp of (buf, rest) \<Rightarrow> (c # buf, rest)))"

text \<open>
  \<^verbatim>\<open>CDeviceBase::GetSerialAnswer(port, term, answer)\<close>: the bytes before the terminator,
  which is consumed; an error (\<open>None\<close>) when the terminator does not arrive in time.
\<close>

definition GetSerialAnswer ::
  "prot_byte_t \<Rightarrow> prot_byte_t list \<Rightarrow> (prot_byte_t list \<times> prot_byte_t list) option" where
  "GetSerialAnswer t inp =
     (if t \<in> set inp
      then Some (takeWhile (\<lambda>c. c \<noteq> t) inp, tl (dropWhile (\<lambda>c. c \<noteq> t) inp))
      else None)"

subsection \<open>HexProtocolBase and its virtual methods\<close>

text \<open>The derived class of an object decides its virtual methods.\<close>

datatype derived_class = StreamHexProtocol | DeviceHexProtocol

text \<open>
  The members \<^verbatim>\<open>target_\<close> (\<open>None\<close> is the null pointer), \<^verbatim>\<open>started_\<close> and \<^verbatim>\<open>stream_\<close>,
  the last as the line it names.
\<close>

record 'dev HexProtocolBase =
  derived :: derived_class
  target :: "'dev option"
  started :: bool
  rx :: "prot_byte_t list"
  tx :: "prot_byte_t list"

text \<open>
  \<^verbatim>\<open>startProtocol(__target, __stream)\<close>. The stream is given by the bytes that will arrive
  on it; nothing has been written to it yet.
\<close>

definition startProtocol ::
  "'dev \<Rightarrow> prot_byte_t list \<Rightarrow> ('dev, 'm) HexProtocolBase_scheme
     \<Rightarrow> ('dev, 'm) HexProtocolBase_scheme" where
  "startProtocol t inp p = p\<lparr>target := Some t, rx := inp, tx := [], started := True\<rparr>"

definition hasStarted :: "('dev, 'm) HexProtocolBase_scheme \<Rightarrow> bool" where
  "hasStarted p = started p"

text \<open>\<^verbatim>\<open>writeByte\<close>, the same in both derived classes.\<close>

definition writeByte ::
  "prot_byte_t \<Rightarrow> ('dev, 'm) HexProtocolBase_scheme \<Rightarrow> bool \<times> ('dev, 'm) HexProtocolBase_scheme" where
  "writeByte b p =
     (if \<not> hasStarted p then (False, p)
      else (True, p\<lparr>tx := tx p @ [b]\<rparr>))"

text \<open>\<^verbatim>\<open>writeBuffer\<close>, the same in both derived classes: the number of bytes written.\<close>

definition writeBuffer ::
  "prot_byte_t list \<Rightarrow> ('dev, 'm) HexProtocolBase_scheme \<Rightarrow> nat \<times> ('dev, 'm) HexProtocolBase_scheme" where
  "writeBuffer buffer p =
     (if \<not> hasStarted p then (0, p)
      else (length buffer, p\<lparr>tx := tx p @ buffer\<rparr>))"

text \<open>Copying \<open>bytes\<close> to the front of a buffer, as \<^verbatim>\<open>readBytesUntil\<close> and \<^verbatim>\<open>string::copy\<close> do.\<close>

definition store :: "prot_byte_t list \<Rightarrow> prot_byte_t list \<Rightarrow> prot_byte_t list" where
  "store bytes buffer = bytes @ drop (length bytes) buffer"

text \<open>
  \<^verbatim>\<open>readBufferUntilTerminator(buffer, size, terminator)\<close>: the number of bytes read and
  the buffer afterwards. The slave stores what \<^verbatim>\<open>readBytesUntil\<close> reads. The host copies
  at most \<open>sz\<close> bytes of the answer and sets a NUL after them if there is room; it reads
  nothing when \<^verbatim>\<open>GetSerialAnswer\<close> fails.
\<close>

definition readBufferUntilTerminator ::
  "prot_byte_t list \<Rightarrow> nat \<Rightarrow> prot_byte_t \<Rightarrow> ('dev, 'm) HexProtocolBase_scheme
     \<Rightarrow> nat \<times> prot_byte_t list \<times> ('dev, 'm) HexProtocolBase_scheme" where
  "readBufferUntilTerminator buffer sz terminator p =
     (if \<not> hasStarted p then (0, buffer, p)
      else (case derived p of
              StreamHexProtocol \<Rightarrow>
                (case Stream_readBytesUntil terminator sz (rx p) of
                   (bytes, rest) \<Rightarrow> (length bytes, store bytes buffer, p\<lparr>rx := rest\<rparr>))
            | DeviceHexProtocol \<Rightarrow>
                (case GetSerialAnswer terminator (rx p) of
                   None \<Rightarrow> (0, buffer, p\<lparr>rx := []\<rparr>)
                 | Some (answer, rest) \<Rightarrow>
                     (let bytesRead = length (take sz answer);
                          buffer1 = store (take sz answer) buffer;
                          buffer2 = (if bytesRead < sz then buffer1[bytesRead := 0] else buffer1)
                      in (bytesRead, buffer2, p\<lparr>rx := rest\<rparr>)))))"

text \<open>
  \<^verbatim>\<open>readByte\<close>: the slave reads one byte with \<^verbatim>\<open>Stream::read\<close>, which gives \<^verbatim>\<open>-1\<close> when
  none is there; the host keeps the method of the base class, which always fails.
\<close>

definition readByte ::
  "('dev, 'm) HexProtocolBase_scheme \<Rightarrow> prot_byte_t option \<times> ('dev, 'm) HexProtocolBase_scheme" where
  "readByte p =
     (case derived p of
        DeviceHexProtocol \<Rightarrow> (None, p)
      | StreamHexProtocol \<Rightarrow>
          (if \<not> hasStarted p then (None, p)
           else (case rx p of
                   [] \<Rightarrow> (None, p)
                 | b # rest \<Rightarrow> (Some b, p\<lparr>rx := rest\<rparr>))))"

definition hasByte :: "('dev, 'm) HexProtocolBase_scheme \<Rightarrow> bool" where
  "hasByte p =
     (case derived p of
        DeviceHexProtocol \<Rightarrow> False
      | StreamHexProtocol \<Rightarrow> (if \<not> hasStarted p then False else rx p \<noteq> []))"

subsection \<open>The value codec\<close>

text \<open>
  The text that \<^verbatim>\<open>putValueDelegate<DD, SS, T>::call\<close> leaves in \<^verbatim>\<open>writeBuf\<close>, for an
  integer type \<open>T\<close> of at most 32 bits. The flag is \<^verbatim>\<open>IS_SIGNED(T)\<close>; the casts to
  \<^verbatim>\<open>prot_long_t\<close> and \<^verbatim>\<open>prot_ulong_t\<close> extend the sign or the zeros, and \<^verbatim>\<open>-temp\<close> is
  the negation in two's complement.
\<close>

definition writeBuf_text :: "bool \<Rightarrow> 'a::len word \<Rightarrow> prot_byte_t list" where
  "writeBuf_text is_signed val =
     (if is_signed then
        (let temp :: prot_long_t = scast val in
         if temp <s 0 then 0x2d # prot_ultohexstr (- temp)
         else prot_ultohexstr temp)
      else
        (let temp :: prot_ulong_t = ucast val in prot_ultohexstr temp))"

text \<open>\<^verbatim>\<open>putValueDelegate<DD, SS, T>::call\<close>: the terminator replaces the NUL, and all goes out
  in one \<^verbatim>\<open>writeBuffer\<close>.\<close>

definition putValue ::
  "bool \<Rightarrow> 'a::len word \<Rightarrow> ('dev, 'm) HexProtocolBase_scheme
     \<Rightarrow> bool \<times> ('dev, 'm) HexProtocolBase_scheme" where
  "putValue is_signed val p =
     (let writeBuf = writeBuf_text is_signed val;
          len = strlen writeBuf
      in (case writeBuffer (take len writeBuf @ [PROT_TERM_CHAR]) p of
            (bytesWritten, p') \<Rightarrow> (bytesWritten = len + 1, p')))"

text \<open>
  The value that \<^verbatim>\<open>getValueDelegate<DD, SS, T>::call\<close> converts from the string in
  \<^verbatim>\<open>readBuf\<close>. The cast to \<open>T\<close> keeps the low bits.
\<close>

definition readBuf_value :: "bool \<Rightarrow> prot_byte_t list \<Rightarrow> 'a::len word" where
  "readBuf_value is_signed str =
     (if is_signed then
        (case strchr str 0x2d of
           Some negSign \<Rightarrow>
             (let temp :: prot_long_t = strtoul (tl negSign) in ucast (- temp))
         | None \<Rightarrow>
             (let temp :: prot_ulong_t = strtoul str in ucast temp))
      else
        (let temp :: prot_ulong_t = strtoul str in ucast temp))"

text \<open>
  \<^verbatim>\<open>getValueDelegate<DD, SS, T>::call\<close>: \<open>None\<close> for \<^verbatim>\<open>false\<close>, else the value stored in
  \<^verbatim>\<open>__t\<close>. The bytes of \<^verbatim>\<open>readBuf\<close> beyond the NUL that the code sets are never read,
  so the buffer starts as zeros here.
\<close>

definition getValue ::
  "bool \<Rightarrow> ('dev, 'm) HexProtocolBase_scheme
     \<Rightarrow> 'a::len word option \<times> ('dev, 'm) HexProtocolBase_scheme" where
  "getValue is_signed p =
     (case readBufferUntilTerminator (replicate PROT_HEX_BUFF_SIZE 0)
             (PROT_HEX_BUFF_SIZE - 1) PROT_TERM_CHAR p of
        (bytesRead, readBuf0, p') \<Rightarrow>
          if bytesRead = 0 then (None, p')
          else
            (let readBuf = readBuf0[bytesRead := 0]
             in (Some (readBuf_value is_signed (c_str readBuf)), p')))"

text \<open>
  A \<^verbatim>\<open>prot_float_t\<close> is an IEEE-754 binary32 value, held by its 32 raw bits: the codec
  only reinterprets them (\<^verbatim>\<open>PROT_FLOAT_IEEE754\<close> is defined).
\<close>

datatype prot_float_t = Float_of_bits (bits_of_float: "32 word")

text \<open>A NaN has all eight exponent bits set and a mantissa that is not zero.\<close>

definition isnan :: "prot_float_t \<Rightarrow> bool" where
  "isnan f \<longleftrightarrow>
     and (bits_of_float f) 0x7F800000 = 0x7F800000 \<and> and (bits_of_float f) 0x007FFFFF \<noteq> 0"

text \<open>\<^verbatim>\<open>putValueDelegate<DD, SS, prot_float_t>::call\<close>.\<close>

definition putValue_float ::
  "prot_float_t \<Rightarrow> ('dev, 'm) HexProtocolBase_scheme \<Rightarrow> bool \<times> ('dev, 'm) HexProtocolBase_scheme" where
  "putValue_float val p =
     (let temp :: prot_ulong_t = bits_of_float val in putValue False temp p)"

text \<open>\<^verbatim>\<open>getValueDelegate<DD, SS, prot_float_t>::call\<close>.\<close>

definition getValue_float ::
  "('dev, 'm) HexProtocolBase_scheme
     \<Rightarrow> prot_float_t option \<times> ('dev, 'm) HexProtocolBase_scheme" where
  "getValue_float p =
     (case getValue False p of
        (None, p') \<Rightarrow> (None, p')
      | (Some (temp :: prot_ulong_t), p') \<Rightarrow> (Some (Float_of_bits temp), p'))"

text \<open>
  \<^verbatim>\<open>getString(__strbuf, __size)\<close>: the result and the buffer afterwards. \<^verbatim>\<open>__size - 1\<close>
  is computed in \<^verbatim>\<open>size_t\<close>, so it is the largest value when \<^verbatim>\<open>__size\<close> is zero.
\<close>

definition getString ::
  "prot_byte_t list \<Rightarrow> nat \<Rightarrow> ('dev, 'm) HexProtocolBase_scheme
     \<Rightarrow> bool \<times> prot_byte_t list \<times> ('dev, 'm) HexProtocolBase_scheme" where
  "getString strbuf sz p =
     (case readBufferUntilTerminator strbuf sz PROT_TERM_CHAR p of
        (bytesRead, strbuf1, p') \<Rightarrow>
          (let strbuf2 = (if sz = 0 \<or> bytesRead < sz - 1 then strbuf1[bytesRead := 0] else strbuf1)
           in (bytesRead \<noteq> 0, strbuf2, p')))"

text \<open>\<^verbatim>\<open>putString(__str)\<close>, for the C string held in \<open>str\<close>.\<close>

definition putString ::
  "prot_byte_t list \<Rightarrow> ('dev, 'm) HexProtocolBase_scheme \<Rightarrow> bool \<times> ('dev, 'm) HexProtocolBase_scheme" where
  "putString str p =
     (let len = strlen str in
      (case (if len > 0 then writeBuffer (take len str) p else (0, p)) of
         (bytesWritten, p1) \<Rightarrow>
           (case writeBuffer [PROT_TERM_CHAR] p1 of
              (n, p2) \<Rightarrow> (bytesWritten + n = len + 1, p2))))"

subsection \<open>Commands and replies\<close>

text \<open>
  \<^verbatim>\<open>f() && g()\<close> on calls that change the protocol object: \<open>g\<close> runs only after \<open>f\<close>
  has returned \<^verbatim>\<open>true\<close>.
\<close>

definition and_then ::
  "('s \<Rightarrow> bool \<times> 's) \<Rightarrow> ('s \<Rightarrow> bool \<times> 's) \<Rightarrow> 's \<Rightarrow> bool \<times> 's" where
  "and_then f g p = (case f p of (True, p') \<Rightarrow> g p' | (False, p') \<Rightarrow> (False, p'))"

definition putCommand ::
  "prot_cmd_t \<Rightarrow> ('dev, 'm) HexProtocolBase_scheme \<Rightarrow> bool \<times> ('dev, 'm) HexProtocolBase_scheme" where
  "putCommand cmd p = writeByte cmd p"

definition putChannelCommand ::
  "prot_cmd_t \<Rightarrow> prot_chan_t \<Rightarrow> ('dev, 'm) HexProtocolBase_scheme
     \<Rightarrow> bool \<times> ('dev, 'm) HexProtocolBase_scheme" where
  "putChannelCommand cmd c p = and_then (putCommand cmd) (putValue True c) p"

definition reply ::
  "prot_cmd_t \<Rightarrow> ('dev, 'm) HexProtocolBase_scheme \<Rightarrow> bool \<times> ('dev, 'm) HexProtocolBase_scheme" where
  "reply cmd p = putValue False cmd p"

definition replyError ::
  "('dev, 'm) HexProtocolBase_scheme \<Rightarrow> bool \<times> ('dev, 'm) HexProtocolBase_scheme" where
  "replyError p = (case putValue False PROT_ERROR p of (_, p') \<Rightarrow> (False, p'))"

definition checkReply ::
  "prot_cmd_t \<Rightarrow> ('dev, 'm) HexProtocolBase_scheme \<Rightarrow> bool \<times> ('dev, 'm) HexProtocolBase_scheme" where
  "checkReply cmd p =
     (case getValue False p of
        (None, p') \<Rightarrow> (False, p')
      | (Some (answer :: prot_cmd_t), p') \<Rightarrow> (answer = cmd, p'))"

definition hasCommand :: "('dev, 'm) HexProtocolBase_scheme \<Rightarrow> bool" where
  "hasCommand p = hasByte p"

definition getCommand ::
  "('dev, 'm) HexProtocolBase_scheme \<Rightarrow> prot_cmd_t \<times> ('dev, 'm) HexProtocolBase_scheme" where
  "getCommand p =
     (case readByte p of
        (Some b, p') \<Rightarrow> (b, p')
      | (None, p') \<Rightarrow> (PROT_ERROR, p'))"

subsection \<open>The initiator: dispatching commands\<close>

text \<open>\<^verbatim>\<open>dispatchSet(__cmdSet, __t)\<close> for one value.\<close>

definition dispatchSet ::
  "bool \<Rightarrow> prot_cmd_t \<Rightarrow> 'a::len word \<Rightarrow> ('dev, 'm) HexProtocolBase_scheme
     \<Rightarrow> bool \<times> ('dev, 'm) HexProtocolBase_scheme" where
  "dispatchSet is_signed cmdSet t p =
     and_then (putCommand cmdSet) (and_then (putValue is_signed t) (checkReply cmdSet)) p"

text \<open>
  The element loop of \<^verbatim>\<open>dispatchSetArray\<close>, from index \<open>i\<close> on. The array \<^verbatim>\<open>__pt\<close> is
  the list \<open>pt\<close>, and \<open>is_signed\<close> is \<^verbatim>\<open>IS_SIGNED(T)\<close> of its elements.
\<close>

function dispatchSetArray_elements ::
  "bool \<Rightarrow> prot_cmd_t \<Rightarrow> 'a::len word list \<Rightarrow> prot_size_t \<Rightarrow> prot_size_t
     \<Rightarrow> ('dev, 'm) HexProtocolBase_scheme \<Rightarrow> bool \<times> ('dev, 'm) HexProtocolBase_scheme" where
  "dispatchSetArray_elements is_signed cmdSet pt sz i p =
     (if i < sz then
        (case and_then (putCommand cmdSet)
                (and_then (putValue False SUBCMD_ARRAY_ELEMENT)
                  (and_then (putValue False i)
                    (and_then (putValue is_signed (pt ! unat i)) (checkReply cmdSet)))) p of
           (False, p') \<Rightarrow> (False, p')
         | (True, p') \<Rightarrow> dispatchSetArray_elements is_signed cmdSet pt sz (i + 1) p')
      else (True, p))"
  by pat_completeness auto
termination
  by (relation "measure (\<lambda>(is_signed, cmdSet, pt, sz, i, p). unat sz - unat i)")
    (simp, simp, unat_arith)

declare dispatchSetArray_elements.simps [simp del]

text \<open>\<^verbatim>\<open>dispatchSetArray(__cmdSet, __pt, __size)\<close>.\<close>

definition dispatchSetArray ::
  "bool \<Rightarrow> prot_cmd_t \<Rightarrow> 'a::len word list \<Rightarrow> prot_size_t
     \<Rightarrow> ('dev, 'm) HexProtocolBase_scheme \<Rightarrow> bool \<times> ('dev, 'm) HexProtocolBase_scheme" where
  "dispatchSetArray is_signed cmdSet pt sz p =
     (case and_then (putCommand cmdSet)
             (and_then (putValue False SUBCMD_ARRAY_SIZE) (checkReply cmdSet)) p of
        (False, p1) \<Rightarrow> (False, p1)
      | (True, p1) \<Rightarrow>
          (case getValue False p1 of
             (None, p2) \<Rightarrow> (False, p2)
           | (Some (maxSize :: prot_size_t), p2) \<Rightarrow>
               if \<not> sz \<le> maxSize then (False, p2)
               else
                 (case dispatchSetArray_elements is_signed cmdSet pt sz 0 p2 of
                    (False, p3) \<Rightarrow> (False, p3)
                  | (True, p3) \<Rightarrow>
                      and_then (putCommand cmdSet)
                        (and_then (putValue False SUBCMD_ARRAY_FINISHED)
                          (and_then (putValue False sz) (checkReply cmdSet))) p3)))"

text \<open>
  The element loop of \<^verbatim>\<open>dispatchGetArray\<close>, from index \<open>i\<close> on: the result, the array
  \<^verbatim>\<open>__pt\<close> afterwards and the protocol object.
\<close>

function dispatchGetArray_elements ::
  "bool \<Rightarrow> prot_cmd_t \<Rightarrow> prot_size_t \<Rightarrow> prot_size_t \<Rightarrow> 'a::len word list
     \<Rightarrow> ('dev, 'm) HexProtocolBase_scheme
     \<Rightarrow> bool \<times> 'a word list \<times> ('dev, 'm) HexProtocolBase_scheme" where
  "dispatchGetArray_elements is_signed cmdGet sz i pt p =
     (if i < sz then
        (case and_then (putCommand cmdGet)
                (and_then (putValue False SUBCMD_ARRAY_ELEMENT)
                  (and_then (putValue False i) (checkReply cmdGet))) p of
           (False, p1) \<Rightarrow> (False, pt, p1)
         | (True, p1) \<Rightarrow>
             (case getValue is_signed p1 of
                (None, p2) \<Rightarrow> (False, pt, p2)
              | (Some el, p2) \<Rightarrow>
                  dispatchGetArray_elements is_signed cmdGet sz (i + 1) (pt[unat i := el]) p2))
      else (True, pt, p))"
  by pat_completeness auto
termination
  by (relation "measure (\<lambda>(is_signed, cmdGet, sz, i, pt, p). unat sz - unat i)")
    (simp, simp, unat_arith)

declare dispatchGetArray_elements.simps [simp del]

text \<open>
  \<^verbatim>\<open>dispatchGetArray(__cmdGet, __pt, __maxSize, __size)\<close>: the result, the array and the
  variable \<^verbatim>\<open>__size\<close> afterwards, and the protocol object.
\<close>

definition dispatchGetArray ::
  "bool \<Rightarrow> prot_cmd_t \<Rightarrow> 'a::len word list \<Rightarrow> prot_size_t \<Rightarrow> prot_size_t
     \<Rightarrow> ('dev, 'm) HexProtocolBase_scheme
     \<Rightarrow> bool \<times> ('a word list \<times> prot_size_t) \<times> ('dev, 'm) HexProtocolBase_scheme" where
  "dispatchGetArray is_signed cmdGet pt maxSize sz0 p =
     (case and_then (putCommand cmdGet)
             (and_then (putValue False SUBCMD_ARRAY_STARTING) (checkReply cmdGet)) p of
        (False, p1) \<Rightarrow> (False, (pt, sz0), p1)
      | (True, p1) \<Rightarrow>
          (case and_then (putCommand cmdGet)
                  (and_then (putValue False SUBCMD_ARRAY_SIZE) (checkReply cmdGet)) p1 of
             (False, p2) \<Rightarrow> (False, (pt, sz0), p2)
           | (True, p2) \<Rightarrow>
               (case getValue False p2 of
                  (None, p3) \<Rightarrow> (False, (pt, sz0), p3)
                | (Some sz, p3) \<Rightarrow>
                    if \<not> sz \<le> maxSize then (False, (pt, sz), p3)
                    else
                      (case dispatchGetArray_elements is_signed cmdGet sz 0 pt p3 of
                         (ok, pt', p4) \<Rightarrow> (ok, (pt', sz), p4)))))"

subsection \<open>The responder: processing commands\<close>

text \<open>
  A \<^verbatim>\<open>TaskFn\<close> is a member function of the device that returns \<^verbatim>\<open>bool\<close>; it may change
  the device. \<^verbatim>\<open>test(target_ && (target_->*fn)())\<close> calls it unless the target is null.
\<close>

type_synonym 'dev TaskFn = "'dev \<Rightarrow> bool \<times> 'dev"

definition call_target ::
  "('dev \<Rightarrow> 'r \<times> 'dev) \<Rightarrow> 'r \<Rightarrow> ('dev, 'm) HexProtocolBase_scheme
     \<Rightarrow> 'r \<times> ('dev, 'm) HexProtocolBase_scheme" where
  "call_target fn null_result p =
     (case target p of
        None \<Rightarrow> (null_result, p)
      | Some dev \<Rightarrow> (case fn dev of (r, dev') \<Rightarrow> (r, p\<lparr>target := Some dev'\<rparr>)))"

text \<open>\<^verbatim>\<open>processTask(__cmdTask, __taskFn)\<close>.\<close>

definition processTask ::
  "prot_cmd_t \<Rightarrow> 'dev TaskFn \<Rightarrow> ('dev, 'm) HexProtocolBase_scheme
     \<Rightarrow> bool \<times> ('dev, 'm) HexProtocolBase_scheme" where
  "processTask cmdTask taskFn p =
     (case call_target taskFn False p of
        (True, p') \<Rightarrow> reply cmdTask p'
      | (False, p') \<Rightarrow> replyError p')"

text \<open>
  \<^verbatim>\<open>processSet(__cmdSet, __val, __afterSet)\<close>, the form without a delegate: the result, the
  variable \<^verbatim>\<open>__val\<close> afterwards and the protocol object. A null \<^verbatim>\<open>__afterSet\<close> is \<open>None\<close>.
\<close>

definition processSet ::
  "bool \<Rightarrow> prot_cmd_t \<Rightarrow> 'a::len word \<Rightarrow> 'dev TaskFn option
     \<Rightarrow> ('dev, 'm) HexProtocolBase_scheme
     \<Rightarrow> bool \<times> 'a word \<times> ('dev, 'm) HexProtocolBase_scheme" where
  "processSet is_signed cmdSet val afterSet p =
     (case getValue is_signed p of
        (Some v, p1) \<Rightarrow>
          (case afterSet of
             None \<Rightarrow> (case reply cmdSet p1 of (ok, p2) \<Rightarrow> (ok, v, p2))
           | Some fn \<Rightarrow>
               (case call_target fn False p1 of
                  (False, p2) \<Rightarrow> (case replyError p2 of (ok, p3) \<Rightarrow> (ok, v, p3))
                | (True, p2) \<Rightarrow> (case reply cmdSet p2 of (ok, p3) \<Rightarrow> (ok, v, p3))))
      | (None, p1) \<Rightarrow> (case replyError p1 of (ok, p2) \<Rightarrow> (ok, val, p2)))"

text \<open>
  \<^verbatim>\<open>processGet(__cmdGet, __val, __beforeGet)\<close>, the form without a delegate. After a
  failed \<^verbatim>\<open>__beforeGet\<close> the code calls \<^verbatim>\<open>replyError()\<close> and goes on.
\<close>

definition processGet ::
  "bool \<Rightarrow> prot_cmd_t \<Rightarrow> 'a::len word \<Rightarrow> 'dev TaskFn option
     \<Rightarrow> ('dev, 'm) HexProtocolBase_scheme \<Rightarrow> bool \<times> ('dev, 'm) HexProtocolBase_scheme" where
  "processGet is_signed cmdGet val beforeGet p =
     (let p1 =
        (case beforeGet of
           None \<Rightarrow> p
         | Some fn \<Rightarrow>
             (case call_target fn False p of
                (False, p') \<Rightarrow> snd (replyError p')
              | (True, p') \<Rightarrow> p'))
      in and_then (reply cmdGet) (putValue is_signed val) p1)"

text \<open>
  \<^verbatim>\<open>processGet(__cmdGet, __getFn)\<close> with a \<^verbatim>\<open>GetValueFn\<close>, which returns \<^verbatim>\<open>true\<close> and
  the value (\<open>Some\<close>) or \<^verbatim>\<open>false\<close> (\<open>None\<close>).
\<close>

definition processGet_fn ::
  "bool \<Rightarrow> prot_cmd_t \<Rightarrow> ('dev \<Rightarrow> 'a::len word option \<times> 'dev)
     \<Rightarrow> ('dev, 'm) HexProtocolBase_scheme \<Rightarrow> bool \<times> ('dev, 'm) HexProtocolBase_scheme" where
  "processGet_fn is_signed cmdGet getFn p =
     (case call_target getFn None p of
        (Some t_val, p') \<Rightarrow> and_then (reply cmdGet) (putValue is_signed t_val) p'
      | (None, p') \<Rightarrow> replyError p')"

text \<open>\<^verbatim>\<open>processGetString(__cmdGet, __str, __beforeGet)\<close>, the form without a delegate.\<close>

definition processGetString ::
  "prot_cmd_t \<Rightarrow> prot_byte_t list \<Rightarrow> 'dev TaskFn option
     \<Rightarrow> ('dev, 'm) HexProtocolBase_scheme \<Rightarrow> bool \<times> ('dev, 'm) HexProtocolBase_scheme" where
  "processGetString cmdGet str beforeGet p =
     (let p1 =
        (case beforeGet of
           None \<Rightarrow> p
         | Some fn \<Rightarrow>
             (case call_target fn False p of
                (False, p') \<Rightarrow> snd (replyError p')
              | (True, p') \<Rightarrow> p'))
      in and_then (reply cmdGet) (putString str) p1)"

text \<open>\<^verbatim>\<open>processGetString(__cmdGet, __strbufFn)\<close> with a \<^verbatim>\<open>GetStringFn\<close>.\<close>

definition processGetString_fn ::
  "prot_cmd_t \<Rightarrow> ('dev \<Rightarrow> prot_byte_t list option \<times> 'dev)
     \<Rightarrow> ('dev, 'm) HexProtocolBase_scheme \<Rightarrow> bool \<times> ('dev, 'm) HexProtocolBase_scheme" where
  "processGetString_fn cmdGet strbufFn p =
     (case call_target strbufFn None p of
        (Some strbuf, p') \<Rightarrow> and_then (reply cmdGet) (putString strbuf) p'
      | (None, p') \<Rightarrow> replyError p')"

subsection \<open>Vocabulary for the statements\<close>

text \<open>The protocol object after the default constructor, with no device behind it.\<close>

definition new_protocol :: "derived_class \<Rightarrow> unit HexProtocolBase" where
  "new_protocol c = \<lparr>derived = c, target = None, started = False, rx = [], tx = []\<rparr>"

text \<open>A lowercase hexadecimal digit, \<^verbatim>\<open>[0-9a-f]\<close>.\<close>

definition is_lower_hex :: "prot_byte_t \<Rightarrow> bool" where
  "is_lower_hex c \<longleftrightarrow> (0x30 \<le> c \<and> c \<le> 0x39) \<or> (0x61 \<le> c \<and> c \<le> 0x66)"

text \<open>The bytes written between two states of a protocol object.\<close>

definition sent ::
  "('dev, 'm) HexProtocolBase_scheme \<Rightarrow> ('dev, 'm) HexProtocolBase_scheme \<Rightarrow> prot_byte_t list" where
  "sent p p' = drop (length (tx p)) (tx p')"

text \<open>A value on the wire: its text and the terminator.\<close>

definition wire_value :: "bool \<Rightarrow> 'a::len word \<Rightarrow> prot_byte_t list" where
  "wire_value is_signed val = writeBuf_text is_signed val @ [PROT_TERM_CHAR]"

text \<open>
  The requests of the array exchanges as the specification lists them: the raw command
  byte, the sub-command, then the arguments, each as a value on the wire.
\<close>

definition array_size_request :: "prot_cmd_t \<Rightarrow> prot_byte_t list" where
  "array_size_request cmd = cmd # wire_value False SUBCMD_ARRAY_SIZE"

definition array_starting_request :: "prot_cmd_t \<Rightarrow> prot_byte_t list" where
  "array_starting_request cmd = cmd # wire_value False SUBCMD_ARRAY_STARTING"

definition array_set_element_request ::
  "bool \<Rightarrow> prot_cmd_t \<Rightarrow> 'a::len word list \<Rightarrow> nat \<Rightarrow> prot_byte_t list" where
  "array_set_element_request is_signed cmd pt i =
     cmd # wire_value False SUBCMD_ARRAY_ELEMENT
       @ wire_value False (of_nat i :: prot_size_t) @ wire_value is_signed (pt ! i)"

definition array_get_element_request :: "prot_cmd_t \<Rightarrow> nat \<Rightarrow> prot_byte_t list" where
  "array_get_element_request cmd i =
     cmd # wire_value False SUBCMD_ARRAY_ELEMENT @ wire_value False (of_nat i :: prot_size_t)"

definition array_finished_request :: "prot_cmd_t \<Rightarrow> prot_size_t \<Rightarrow> prot_byte_t list" where
  "array_finished_request cmd sz = cmd # wire_value False SUBCMD_ARRAY_FINISHED @ wire_value False sz"

text \<open>The next \<open>n\<close> replies on the line all pass \<^verbatim>\<open>checkReply(cmd)\<close>.\<close>

fun check_replies ::
  "prot_cmd_t \<Rightarrow> nat \<Rightarrow> ('dev, 'm) HexProtocolBase_scheme
     \<Rightarrow> bool \<times> ('dev, 'm) HexProtocolBase_scheme" where
  "check_replies cmd 0 p = (True, p)"
| "check_replies cmd (Suc n) p =
     (case checkReply cmd p of
        (False, p') \<Rightarrow> (False, p')
      | (True, p') \<Rightarrow> check_replies cmd n p')"

text \<open>
  The host of Scenario C of the specification (the command \<^verbatim>\<open>0x4d\<close>, the remote maximum
  256, four elements), with the replies of the slave on its line.
\<close>

definition scenario_C_host :: "unit HexProtocolBase" where
  "scenario_C_host =
     startProtocol ()
       (ascii ''4d'' @ PROT_TERM_CHAR # ascii ''100'' @ PROT_TERM_CHAR
          # ascii ''4d'' @ PROT_TERM_CHAR # ascii ''4d'' @ PROT_TERM_CHAR
          # ascii ''4d'' @ PROT_TERM_CHAR # ascii ''4d'' @ PROT_TERM_CHAR
          # ascii ''4d'' @ [PROT_TERM_CHAR])
       (new_protocol DeviceHexProtocol)"

section \<open>Properties\<close>

subsection \<open>Hexadecimal text\<close>

lemma below_16_cases:
  "(d::nat) < 16 \<Longrightarrow> d \<in> set [0, 1, 2, 3, 4, 5, 6, 7, 8, 9, 10, 11, 12, 13, 14, 15]"
proof -
  assume "d < 16"
  then have "d \<in> set [0..<16]" by simp
  also have "[0..<16] = [0, 1, 2, 3, 4, 5, 6, 7, 8, 9, 10, 11, 12, 13, 14, 15::nat]"
    by (simp add: upt_rec)
  finally show ?thesis .
qed

lemma digit_value_hexdigit: "d < 16 \<Longrightarrow> digit_value (hexdigit d) = Some d"
  by (drule below_16_cases, simp, elim disjE) (simp_all add: digit_value_def hexdigit_def)

lemma is_lower_hex_hexdigit: "d < 16 \<Longrightarrow> is_lower_hex (hexdigit d)"
  by (drule below_16_cases, simp, elim disjE) (simp_all add: is_lower_hex_def hexdigit_def)

lemma lower_hex_digit_value: "is_lower_hex c \<Longrightarrow> digit_value c \<noteq> None"
  by (auto simp: is_lower_hex_def digit_value_def)

lemma lower_hex_plain:
  "is_lower_hex c \<Longrightarrow> c \<noteq> 0 \<and> c \<noteq> 0x04 \<and> c \<noteq> 0x2d \<and> c \<noteq> 0x2b \<and> c \<noteq> 0x78 \<and> c \<noteq> 0x58 \<and> \<not> isspace c"
  by (auto simp: is_lower_hex_def isspace_def word_le_nat_alt)

lemma ultoa16_lower_hex: "c \<in> set (ultoa16 n) \<Longrightarrow> is_lower_hex c"
proof (induction n arbitrary: c rule: ultoa16.induct)
  case (1 n)
  show ?case
  proof (cases "n < 16")
    case True
    with "1.prems" show ?thesis
      by (simp add: ultoa16.simps [of n] is_lower_hex_hexdigit)
  next
    case False
    with "1.prems" "1.IH" show ?thesis
      by (auto simp: ultoa16.simps [of n] is_lower_hex_hexdigit)
  qed
qed

lemma ultoa16_not_Nil: "ultoa16 n \<noteq> []"
  by (subst ultoa16.simps) simp

lemma length_ultoa16: "0 < k \<Longrightarrow> n < 16 ^ k \<Longrightarrow> length (ultoa16 n) \<le> k"
proof (induction n arbitrary: k rule: ultoa16.induct)
  case (1 n)
  show ?case
  proof (cases "n < 16")
    case True
    with "1.prems" show ?thesis
      by (simp add: ultoa16.simps [of n])
  next
    case False
    from "1.prems" False obtain j where k: "k = Suc j"
      by (cases k) auto
    from False "1.prems" k have j: "0 < j"
      by (cases j) auto
    from "1.prems" k have "n div 16 < 16 ^ j"
      by (simp add: less_mult_imp_div_less mult.commute)
    with "1.IH" [OF False j] have "length (ultoa16 (n div 16)) \<le> j" .
    with False k show ?thesis
      by (simp add: ultoa16.simps [of n])
  qed
qed

lemma digits_value_append:
  "\<forall>c \<in> set xs. digit_value c \<noteq> None \<Longrightarrow>
     digits_value acc (xs @ ys) = digits_value (digits_value acc xs) ys"
  by (induction xs arbitrary: acc) auto

lemma digits_value_ultoa16:
  "digits_value acc (ultoa16 n) = acc * 16 ^ length (ultoa16 n) + n"
proof (induction n arbitrary: acc rule: ultoa16.induct)
  case (1 n)
  show ?case
  proof (cases "n < 16")
    case True
    then show ?thesis
      by (simp add: ultoa16.simps [of n] digit_value_hexdigit)
  next
    case False
    have hex: "\<forall>c \<in> set (ultoa16 (n div 16)). digit_value c \<noteq> None"
      by (simp add: ultoa16_lower_hex lower_hex_digit_value)
    have "digits_value acc (ultoa16 n)
        = digits_value (digits_value acc (ultoa16 (n div 16))) [hexdigit (n mod 16)]"
      using False by (simp add: ultoa16.simps [of n] digits_value_append [OF hex])
    also have "\<dots> = (acc * 16 ^ length (ultoa16 (n div 16)) + n div 16) * 16 + n mod 16"
      using "1.IH" [OF False] by (simp add: digit_value_hexdigit)
    also have "\<dots> = acc * 16 ^ length (ultoa16 n) + n"
      using False by (simp add: ultoa16.simps [of n] algebra_simps)
    finally show ?thesis .
  qed
qed

lemma strtoul_ultoa16:
  assumes "n < 2 ^ 32"
  shows "strtoul (ultoa16 n) = of_nat n"
proof -
  obtain c cs where s: "ultoa16 n = c # cs"
    using ultoa16_not_Nil [of n] by (cases "ultoa16 n") auto
  have c: "is_lower_hex c" and cs: "\<forall>x \<in> set cs. is_lower_hex x"
    using ultoa16_lower_hex [of _ n] s by auto
  have s1: "dropWhile isspace (c # cs) = c # cs"
    using c lower_hex_plain [of c] by simp
  have s3: "(case cs of [] \<Rightarrow> c # cs
             | b # r \<Rightarrow> if c = 0x30 \<and> (b = 0x78 \<or> b = 0x58) then r else c # cs) = c # cs"
    using cs lower_hex_plain by (cases cs) auto
  have v: "digits_value 0 (c # cs) = n"
    using digits_value_ultoa16 [of 0 n] s by simp
  from assms have n: "\<not> n > 0xFFFFFFFF" by simp
  have "strtoul (c # cs) = of_nat n"
    unfolding strtoul_def s1 Let_def list.case
    using c lower_hex_plain [of c] n
    by (simp only: s3 v list.case if_False simp_thms)
  then show ?thesis
    by (simp add: s)
qed

lemma lower_hex_not_NUL: "is_lower_hex c \<Longrightarrow> c \<noteq> 0"
  by (simp add: lower_hex_plain)

lemma c_str_id: "0 \<notin> set t \<Longrightarrow> c_str t = t"
  by (auto simp: c_str_def takeWhile_eq_all_conv)

lemma ultoa16_no_NUL: "0 \<notin> set (ultoa16 n)"
  using ultoa16_lower_hex lower_hex_not_NUL by blast

lemma ultoa16_no_TERM: "PROT_TERM_CHAR \<notin> set (ultoa16 n)"
  using ultoa16_lower_hex lower_hex_plain by (fastforce simp: PROT_TERM_CHAR_def)

lemma ultoa16_no_minus: "0x2d \<notin> set (ultoa16 n)"
  using ultoa16_lower_hex lower_hex_plain by fastforce

lemma prot_ultohexstr_length: "length (prot_ultohexstr v) \<le> 8"
proof -
  have "unat v < 2 ^ 32"
    using unsigned_less [of v] by simp
  then have "unat v < 16 ^ 8" by simp
  then show ?thesis
    unfolding prot_ultohexstr_def by (intro length_ultoa16) simp_all
qed

lemma strtoul_prot_ultohexstr: "strtoul (prot_ultohexstr v) = v"
proof -
  have "unat v < 2 ^ 32"
    using unsigned_less [of v] by simp
  then show ?thesis
    by (simp add: prot_ultohexstr_def strtoul_ultoa16)
qed

lemma writeBuf_text_no_NUL: "0 \<notin> set (writeBuf_text sg v)"
  by (simp add: writeBuf_text_def Let_def prot_ultohexstr_def ultoa16_no_NUL)

lemma writeBuf_text_no_TERM: "PROT_TERM_CHAR \<notin> set (writeBuf_text sg v)"
  using ultoa16_no_TERM
  by (simp add: writeBuf_text_def Let_def prot_ultohexstr_def) (simp add: PROT_TERM_CHAR_def)

lemma writeBuf_text_not_Nil: "writeBuf_text sg v \<noteq> []"
  by (simp add: writeBuf_text_def Let_def prot_ultohexstr_def ultoa16_not_Nil)

lemma writeBuf_text_length: "length (writeBuf_text sg v) \<le> 9"
  using prot_ultohexstr_length [of "- scast v"] prot_ultohexstr_length [of "scast v"]
    prot_ultohexstr_length [of "ucast v"]
  by (simp add: writeBuf_text_def Let_def le_Suc_eq)

lemma putValue_started:
  "started p \<Longrightarrow>
     putValue sg v p = (True, p\<lparr>tx := tx p @ writeBuf_text sg v @ [PROT_TERM_CHAR]\<rparr>)"
  by (simp add: putValue_def Let_def strlen_def c_str_id [OF writeBuf_text_no_NUL]
      writeBuffer_def hasStarted_def)

lemma putValue_not_started: "\<not> started p \<Longrightarrow> putValue sg v p = (False, p)"
  by (simp add: putValue_def Let_def writeBuffer_def hasStarted_def)

lemma Stream_readBytesUntil_text:
  "t \<notin> set bs \<Longrightarrow> length bs \<le> n \<Longrightarrow>
     fst (Stream_readBytesUntil t n (bs @ t # rest)) = bs"
proof (induction bs arbitrary: n)
  case Nil
  then show ?case by (cases n) simp_all
next
  case (Cons b bs)
  then obtain m where "n = Suc m" by (cases n) auto
  with Cons show ?case
    by (auto simp: split_beta)
qed

lemma takeWhile_neq_append:
  "c \<notin> set bs \<Longrightarrow> takeWhile (\<lambda>x. x \<noteq> c) (bs @ c # rest) = bs"
  by (induction bs) auto

lemma dropWhile_neq_append:
  "c \<notin> set bs \<Longrightarrow> dropWhile (\<lambda>x. x \<noteq> c) (bs @ c # rest) = c # rest"
  by (induction bs) auto

lemma dropWhile_neq_all: "c \<notin> set bs \<Longrightarrow> dropWhile (\<lambda>x. x \<noteq> c) bs = []"
  by (induction bs) auto

lemma GetSerialAnswer_text:
  "t \<notin> set bs \<Longrightarrow> GetSerialAnswer t (bs @ t # rest) = Some (bs, rest)"
  by (simp add: GetSerialAnswer_def takeWhile_neq_append dropWhile_neq_append)

lemma c_str_stored:
  assumes "0 \<notin> set bs" and "length bs < length buffer"
  shows "c_str ((store bs buffer)[length bs := 0]) = bs"
proof -
  from assms(2) obtain x xs where "drop (length bs) buffer = x # xs"
    by (cases "drop (length bs) buffer") auto
  then have "(store bs buffer)[length bs := 0] = bs @ 0 # xs"
    by (simp add: store_def list_update_append)
  with assms(1) show ?thesis
    by (simp add: c_str_def takeWhile_neq_append)
qed

lemma readBufferUntilTerminator_text:
  assumes "started r" and "t \<notin> set bs" and "0 \<notin> set bs"
    and "length bs \<le> sz" and "length bs < length buffer"
  shows "\<exists>buffer' r'.
           readBufferUntilTerminator buffer sz t (r\<lparr>rx := bs @ t # rest\<rparr>)
             = (length bs, buffer', r')
           \<and> c_str (buffer'[length bs := 0]) = bs"
proof (cases "derived r")
  case StreamHexProtocol
  obtain left where "Stream_readBytesUntil t sz (bs @ t # rest) = (bs, left)"
    using Stream_readBytesUntil_text [OF assms(2,4), of rest]
    by (cases "Stream_readBytesUntil t sz (bs @ t # rest)") simp
  with assms StreamHexProtocol show ?thesis
    by (simp add: readBufferUntilTerminator_def hasStarted_def c_str_stored)
next
  case DeviceHexProtocol
  have "c_str ((store bs buffer)[length bs := 0]) = bs"
    using assms by (simp add: c_str_stored)
  with assms DeviceHexProtocol show ?thesis
    by (auto simp: readBufferUntilTerminator_def hasStarted_def GetSerialAnswer_text Let_def)
qed

lemma getValue_text:
  assumes "started r" and "PROT_TERM_CHAR \<notin> set bs" and "0 \<notin> set bs"
    and "bs \<noteq> []" and "length bs \<le> 9"
  shows "fst (getValue sg (r\<lparr>rx := bs @ PROT_TERM_CHAR # rest\<rparr>)) = Some (readBuf_value sg bs)"
proof -
  obtain buffer' r' where
    "readBufferUntilTerminator (replicate 10 0) 9 PROT_TERM_CHAR
       (r\<lparr>rx := bs @ PROT_TERM_CHAR # rest\<rparr>) = (length bs, buffer', r')"
    and "c_str (buffer'[length bs := 0]) = bs"
    using readBufferUntilTerminator_text [OF assms(1,2,3), of 9 "replicate 10 0" rest] assms(5)
    by auto
  with assms(4) show ?thesis
    by (simp add: getValue_def PROT_HEX_BUFF_SIZE_def Let_def)
qed

lemma strchr_no_minus: "c \<notin> set s \<Longrightarrow> strchr s c = None"
  by (simp add: strchr_def dropWhile_neq_all)

lemma readBuf_value_unsigned:
  "readBuf_value False (writeBuf_text False (v :: 32 word)) = v"
  by (simp add: readBuf_value_def writeBuf_text_def strtoul_prot_ultohexstr)

lemma readBuf_value_signed:
  "readBuf_value True (writeBuf_text True (v :: 32 word)) = v"
proof (cases "v <s 0")
  case True
  then show ?thesis
    by (simp add: readBuf_value_def writeBuf_text_def strchr_def strtoul_prot_ultohexstr)
next
  case False
  have "strchr (prot_ultohexstr v) 0x2d = None"
    by (simp add: strchr_no_minus prot_ultohexstr_def ultoa16_no_minus)
  with False show ?thesis
    by (simp add: readBuf_value_def writeBuf_text_def strtoul_prot_ultohexstr)
qed

lemma sent_append [simp]: "sent p (q\<lparr>tx := tx p @ bs\<rparr>) = bs"
  by (simp add: sent_def)

lemma started_startProtocol [simp]: "started (startProtocol t inp p)"
  by (simp add: startProtocol_def)

lemma getValue_writeBuf_text:
  "started r \<Longrightarrow>
     fst (getValue sg' (r\<lparr>rx := writeBuf_text sg v @ PROT_TERM_CHAR # rest\<rparr>))
       = Some (readBuf_value sg' (writeBuf_text sg v))"
  by (rule getValue_text [OF _ writeBuf_text_no_TERM writeBuf_text_no_NUL
        writeBuf_text_not_Nil writeBuf_text_length])

lemma ascii_min_long: "writeBuf_text True (- 0x80000000 :: 32 word) = ascii ''-80000000''"
  by (simp add: writeBuf_text_def prot_ultohexstr_def ultoa16.simps hexdigit_def ascii_def
      word_sless_alt)

subsection \<open>Round trips of the value codec\<close>

text \<open>
  Claim C1. For every 32-bit signed integer \<open>i\<close>, what \<^verbatim>\<open>putValue\<close> writes for \<open>i\<close>
  on one side is read back as \<open>i\<close> by \<^verbatim>\<open>getValue\<close> on the other side, whatever follows
  on the line. The minimum \<^verbatim>\<open>-0x80000000\<close> goes out as the text \<^verbatim>\<open>-80000000\<close> and the
  terminator, and that text is read back as the minimum.
\<close>

theorem signed_codec_roundtrip:
  fixes i :: "32 word"
  assumes "started w" and "started r"
  shows "(case putValue True i w of
            (ok, w') \<Rightarrow> ok \<and> fst (getValue True (r\<lparr>rx := sent w w' @ rest\<rparr>)) = Some i)
       \<and> putValue True (- 0x80000000 :: 32 word) w
           = (True, w\<lparr>tx := tx w @ ascii ''-80000000'' @ [PROT_TERM_CHAR]\<rparr>)
       \<and> fst (getValue True (r\<lparr>rx := ascii ''-80000000'' @ [PROT_TERM_CHAR] @ rest\<rparr>))
           = Some (- 0x80000000 :: 32 word)"
proof -
  have rt: "fst (getValue True (r\<lparr>rx := writeBuf_text True j @ PROT_TERM_CHAR # rest\<rparr>)) = Some j"
    for j :: "32 word"
    by (simp add: getValue_writeBuf_text [OF assms(2)] readBuf_value_signed)
  have "putValue True i w = (True, w\<lparr>tx := tx w @ writeBuf_text True i @ [PROT_TERM_CHAR]\<rparr>)"
    by (rule putValue_started [OF assms(1)])
  moreover have "putValue True (- 0x80000000 :: 32 word) w
      = (True, w\<lparr>tx := tx w @ ascii ''-80000000'' @ [PROT_TERM_CHAR]\<rparr>)"
    using putValue_started [OF assms(1), of True "- 0x80000000 :: 32 word"]
    by (simp only: ascii_min_long)
  moreover have "fst (getValue True (r\<lparr>rx := ascii ''-80000000'' @ [PROT_TERM_CHAR] @ rest\<rparr>))
      = Some (- 0x80000000 :: 32 word)"
    using rt [of "- 0x80000000"] by (simp only: ascii_min_long append_Cons append_Nil)
  ultimately show ?thesis
    using rt [of i] by simp
qed

theorem signed_codec_roundtrip_witness:
  "started (startProtocol () [] (new_protocol DeviceHexProtocol))
   \<and> started (startProtocol () [] (new_protocol StreamHexProtocol))
   \<and> (case putValue True (- 5 :: 32 word) (startProtocol () [] (new_protocol DeviceHexProtocol)) of
         (ok, w') \<Rightarrow> ok \<and> fst (getValue True (startProtocol () [] (new_protocol StreamHexProtocol)
             \<lparr>rx := sent (startProtocol () [] (new_protocol DeviceHexProtocol)) w' @ []\<rparr>))
           = Some (- 5 :: 32 word))"
  using signed_codec_roundtrip [where w = "startProtocol () [] (new_protocol DeviceHexProtocol)"
      and r = "startProtocol () [] (new_protocol StreamHexProtocol)" and i = "- 5" and rest = "[]"]
  by simp

subsection \<open>Reading leaves all but the incoming line alone\<close>

lemma readBufferUntilTerminator_frame:
  "\<exists>rest. snd (snd (readBufferUntilTerminator buffer sz t p)) = p\<lparr>rx := rest\<rparr>"
proof (cases "hasStarted p")
  case False
  then have "snd (snd (readBufferUntilTerminator buffer sz t p)) = p\<lparr>rx := rx p\<rparr>"
    by (simp add: readBufferUntilTerminator_def)
  then show ?thesis by blast
next
  case True
  then show ?thesis
    by (cases "derived p")
      (auto simp: readBufferUntilTerminator_def Let_def split: prod.splits option.splits)
qed

lemma getValue_frame: "\<exists>rest. snd (getValue sg p) = p\<lparr>rx := rest\<rparr>"
proof -
  obtain n b p' where rd:
    "readBufferUntilTerminator (replicate PROT_HEX_BUFF_SIZE 0) (PROT_HEX_BUFF_SIZE - 1)
       PROT_TERM_CHAR p = (n, b, p')"
    by (metis prod_cases3)
  from readBufferUntilTerminator_frame
    [of "replicate PROT_HEX_BUFF_SIZE 0" "PROT_HEX_BUFF_SIZE - 1" PROT_TERM_CHAR p] rd
  obtain rest where "p' = p\<lparr>rx := rest\<rparr>" by auto
  with rd show ?thesis
    by (auto simp: getValue_def Let_def)
qed

lemma checkReply_frame: "\<exists>rest. snd (checkReply cmd p) = p\<lparr>rx := rest\<rparr>"
proof -
  obtain rest where "snd (getValue False p :: prot_cmd_t option \<times> _) = p\<lparr>rx := rest\<rparr>"
    using getValue_frame by blast
  then show ?thesis
    by (cases "getValue False p :: prot_cmd_t option \<times> _")
      (auto simp: checkReply_def split: option.splits)
qed

lemma putCommand_started: "started p \<Longrightarrow> putCommand cmd p = (True, p\<lparr>tx := tx p @ [cmd]\<rparr>)"
  by (simp add: putCommand_def writeByte_def hasStarted_def)

lemma putCommand_not_started: "\<not> started p \<Longrightarrow> putCommand cmd p = (False, p)"
  by (simp add: putCommand_def writeByte_def hasStarted_def)

lemma writeBuf_text_minus_one: "writeBuf_text True (- 1 :: 32 word) = ascii ''-1''"
  by (simp add: writeBuf_text_def prot_ultohexstr_def ultoa16.simps hexdigit_def ascii_def)

lemma writeBuf_text_cmd_S: "writeBuf_text False (0x53 :: prot_cmd_t) = ascii ''53''"
  by (simp add: writeBuf_text_def prot_ultohexstr_def ultoa16.simps hexdigit_def ascii_def)

subsection \<open>The text of a negative value\<close>

text \<open>
  Claim C2 says that the signed value \<open>-1\<close> goes out as \<^verbatim>\<open>-ffffffff\<close> and the terminator.
  It does not: the code writes a minus sign and the hexadecimal text of the absolute
  value, here \<^verbatim>\<open>-1\<close>.
\<close>

theorem minus_one_payload_counterexample:
  "tx (snd (putValue True (- 1 :: 32 word) (startProtocol () [] (new_protocol DeviceHexProtocol))))
     \<noteq> ascii ''-ffffffff'' @ [PROT_TERM_CHAR]"
  by (simp add: putValue_started writeBuf_text_minus_one)
    (simp add: startProtocol_def new_protocol_def ascii_def)

text \<open>
  Claim C2, amended. On a started protocol object \<^verbatim>\<open>putValue\<close> writes the 32-bit signed
  value \<open>-1\<close> as the text \<^verbatim>\<open>-1\<close> and the terminator; the set exchange for the command
  \<^verbatim>\<open>0x53\<close> sends the raw command byte and then that payload; and the responder's get of
  the same value answers with the echo \<^verbatim>\<open>53\<close>, the terminator, \<^verbatim>\<open>-1\<close> and the terminator.
\<close>

theorem minus_one_payload:
  assumes "started w" and "started q"
  shows "putValue True (- 1 :: 32 word) w
           = (True, w\<lparr>tx := tx w @ ascii ''-1'' @ [PROT_TERM_CHAR]\<rparr>)
       \<and> sent w (snd (dispatchSet True 0x53 (- 1 :: 32 word) w))
           = 0x53 # ascii ''-1'' @ [PROT_TERM_CHAR]
       \<and> processGet True 0x53 (- 1 :: 32 word) None q
           = (True, q\<lparr>tx := tx q @ ascii ''53'' @ [PROT_TERM_CHAR] @ ascii ''-1'' @ [PROT_TERM_CHAR]\<rparr>)"
proof -
  have put: "putValue True (- 1 :: 32 word) p
      = (True, p\<lparr>tx := tx p @ ascii ''-1'' @ [PROT_TERM_CHAR]\<rparr>)" if "started p" for p :: "('x, 'y) HexProtocolBase_scheme"
    using putValue_started [OF that, of True "- 1 :: 32 word"]
    by (simp only: writeBuf_text_minus_one)
  obtain rest where
    "snd (checkReply 0x53 (w\<lparr>tx := tx w @ 0x53 # ascii ''-1'' @ [PROT_TERM_CHAR]\<rparr>))
       = w\<lparr>tx := tx w @ 0x53 # ascii ''-1'' @ [PROT_TERM_CHAR], rx := rest\<rparr>"
    using checkReply_frame by blast
  then have "sent w (snd (dispatchSet True 0x53 (- 1 :: 32 word) w))
      = 0x53 # ascii ''-1'' @ [PROT_TERM_CHAR]"
    using assms(1)
    by (simp add: dispatchSet_def and_then_def putCommand_started put sent_def)
  moreover have "processGet True 0x53 (- 1 :: 32 word) None q
      = (True, q\<lparr>tx := tx q @ ascii ''53'' @ [PROT_TERM_CHAR] @ ascii ''-1'' @ [PROT_TERM_CHAR]\<rparr>)"
    using assms(2)
    by (simp add: processGet_def and_then_def reply_def putValue_started
        writeBuf_text_cmd_S writeBuf_text_minus_one)
  ultimately show ?thesis
    using put [OF assms(1)] by simp
qed

theorem minus_one_payload_witness:
  "started (startProtocol () [] (new_protocol DeviceHexProtocol))
   \<and> started (startProtocol () [] (new_protocol StreamHexProtocol))
   \<and> processGet True 0x53 (- 1 :: 32 word) None (startProtocol () [] (new_protocol StreamHexProtocol))
       = (True, startProtocol () [] (new_protocol StreamHexProtocol)
            \<lparr>tx := ascii ''53'' @ [PROT_TERM_CHAR] @ ascii ''-1'' @ [PROT_TERM_CHAR]\<rparr>)"
  using minus_one_payload [where w = "startProtocol () [] (new_protocol DeviceHexProtocol)"
      and q = "startProtocol () [] (new_protocol StreamHexProtocol)"]
  by (simp add: startProtocol_def new_protocol_def)

subsection \<open>Unsigned values and floats\<close>

lemma writeBuf_text_unsigned_lower_hex:
  "list_all is_lower_hex (writeBuf_text False v)"
  by (simp add: writeBuf_text_def prot_ultohexstr_def list_all_iff ultoa16_lower_hex)

text \<open>
  Claim C4. For every 32-bit unsigned integer \<open>u\<close>, what \<^verbatim>\<open>putValue\<close> writes for \<open>u\<close> is
  read back as \<open>u\<close> by \<^verbatim>\<open>getValue\<close>. The bytes written end in the terminator, and before
  it there is at least one character, each of them a lowercase hexadecimal digit, so
  none is a minus sign.
\<close>

theorem unsigned_codec_roundtrip:
  fixes u :: "32 word"
  assumes "started w" and "started r"
  shows "case putValue False u w of
           (ok, w') \<Rightarrow>
             ok \<and> fst (getValue False (r\<lparr>rx := sent w w' @ rest\<rparr>)) = Some u
             \<and> sent w w' \<noteq> [] \<and> last (sent w w') = PROT_TERM_CHAR
             \<and> butlast (sent w w') \<noteq> []
             \<and> list_all is_lower_hex (butlast (sent w w'))
             \<and> 0x2d \<notin> set (butlast (sent w w'))"
proof -
  have put: "putValue False u w
      = (True, w\<lparr>tx := tx w @ writeBuf_text False u @ [PROT_TERM_CHAR]\<rparr>)"
    by (rule putValue_started [OF assms(1)])
  have "fst (getValue False (r\<lparr>rx := writeBuf_text False u @ PROT_TERM_CHAR # rest\<rparr>)) = Some u"
    by (simp add: getValue_writeBuf_text [OF assms(2)] readBuf_value_unsigned)
  moreover have "0x2d \<notin> set (writeBuf_text False u)"
    by (simp add: writeBuf_text_def prot_ultohexstr_def ultoa16_no_minus)
  ultimately show ?thesis
    by (simp add: put writeBuf_text_not_Nil writeBuf_text_unsigned_lower_hex butlast_append)
qed

theorem unsigned_codec_roundtrip_witness:
  "started (startProtocol () [] (new_protocol DeviceHexProtocol))
   \<and> started (startProtocol () [] (new_protocol StreamHexProtocol))
   \<and> (case putValue False (0xffffffff :: 32 word) (startProtocol () [] (new_protocol DeviceHexProtocol)) of
         (ok, w') \<Rightarrow> ok \<and> fst (getValue False (startProtocol () [] (new_protocol StreamHexProtocol)
             \<lparr>rx := sent (startProtocol () [] (new_protocol DeviceHexProtocol)) w' @ []\<rparr>))
           = Some (0xffffffff :: 32 word)
           \<and> last (sent (startProtocol () [] (new_protocol DeviceHexProtocol)) w') = PROT_TERM_CHAR
           \<and> list_all is_lower_hex (butlast (sent (startProtocol () [] (new_protocol DeviceHexProtocol)) w')))"
  using unsigned_codec_roundtrip [where w = "startProtocol () [] (new_protocol DeviceHexProtocol)"
      and r = "startProtocol () [] (new_protocol StreamHexProtocol)" and u = "0xffffffff"
      and rest = "[]"]
  by (simp add: split_beta)

text \<open>
  Claim C5. For every 32-bit float \<open>f\<close> that is not a NaN, \<^verbatim>\<open>putValue\<close> for floats writes
  what the unsigned codec writes for the 32 raw bits of \<open>f\<close>, and \<^verbatim>\<open>getValue\<close> for floats
  reads it back as a float with the same bits.
\<close>

theorem float_codec_roundtrip:
  assumes "\<not> isnan f" and "started w" and "started r"
  shows "putValue_float f w = putValue False (bits_of_float f) w
       \<and> (case putValue_float f w of
            (ok, w') \<Rightarrow>
              ok \<and> (case fst (getValue_float (r\<lparr>rx := sent w w' @ rest\<rparr>)) of
                      None \<Rightarrow> False
                    | Some g \<Rightarrow> bits_of_float g = bits_of_float f))"
proof -
  have put: "putValue_float f w
      = (True, w\<lparr>tx := tx w @ writeBuf_text False (bits_of_float f) @ [PROT_TERM_CHAR]\<rparr>)"
    by (simp add: putValue_float_def putValue_started [OF assms(2)])
  have "fst (getValue False (r\<lparr>rx := writeBuf_text False (bits_of_float f) @ PROT_TERM_CHAR # rest\<rparr>))
      = Some (bits_of_float f)"
    by (simp add: getValue_writeBuf_text [OF assms(3)] readBuf_value_unsigned)
  then have "fst (getValue_float (r\<lparr>rx := writeBuf_text False (bits_of_float f) @ PROT_TERM_CHAR # rest\<rparr>))
      = Some f"
    by (cases "getValue False
          (r\<lparr>rx := writeBuf_text False (bits_of_float f) @ PROT_TERM_CHAR # rest\<rparr>)
          :: prot_ulong_t option \<times> _")
      (auto simp: getValue_float_def)
  then have both: "case putValue_float f w of
      (ok, w') \<Rightarrow>
        ok \<and> (case fst (getValue_float (r\<lparr>rx := sent w w' @ rest\<rparr>)) of
                None \<Rightarrow> False
              | Some g \<Rightarrow> bits_of_float g = bits_of_float f)"
    by (simp add: put)
  have "putValue_float f w = putValue False (bits_of_float f) w"
    by (simp add: putValue_float_def)
  then show ?thesis
    using both by (rule conjI)
qed

theorem float_codec_roundtrip_witness:
  "\<not> isnan (Float_of_bits 0x3f800000)
   \<and> started (startProtocol () [] (new_protocol DeviceHexProtocol))
   \<and> started (startProtocol () [] (new_protocol StreamHexProtocol))
   \<and> (case putValue_float (Float_of_bits 0x3f800000) (startProtocol () [] (new_protocol DeviceHexProtocol)) of
         (ok, w') \<Rightarrow> ok \<and> (case fst (getValue_float (startProtocol () [] (new_protocol StreamHexProtocol)
             \<lparr>rx := sent (startProtocol () [] (new_protocol DeviceHexProtocol)) w' @ []\<rparr>)) of
               None \<Rightarrow> False
             | Some g \<Rightarrow> bits_of_float g = bits_of_float (Float_of_bits 0x3f800000)))"
proof -
  have nan: "\<not> isnan (Float_of_bits 0x3f800000)"
    by (simp add: isnan_def)
  have w: "started (startProtocol () [] (new_protocol DeviceHexProtocol))"
    and r: "started (startProtocol () [] (new_protocol StreamHexProtocol))"
    by simp_all
  show ?thesis
    by (intro conjI nan w r float_codec_roundtrip [OF nan w r, where rest = "[]", THEN conjunct2])
qed

subsection \<open>Strings\<close>

lemma putString_empty:
  "started w \<Longrightarrow> putString [] w = (True, w\<lparr>tx := tx w @ [PROT_TERM_CHAR]\<rparr>)"
  by (simp add: putString_def strlen_def c_str_def writeBuffer_def hasStarted_def)

lemma getString_TERM:
  assumes "started r" and "2 \<le> sz"
  shows "getString strbuf sz (r\<lparr>rx := PROT_TERM_CHAR # rest\<rparr>)
           = (False, strbuf[0 := 0], r\<lparr>rx := rest\<rparr>)"
proof (cases "derived r")
  case StreamHexProtocol
  from assms(2) obtain n where "sz = Suc n" by (cases sz) auto
  with assms StreamHexProtocol show ?thesis
    by (simp add: getString_def readBufferUntilTerminator_def hasStarted_def store_def)
next
  case DeviceHexProtocol
  with assms show ?thesis
    by (simp add: getString_def readBufferUntilTerminator_def hasStarted_def store_def
        GetSerialAnswer_def Let_def)
qed

text \<open>
  Claim C8 says that the empty string round-trips: reading back the single terminator
  that \<^verbatim>\<open>putString("")\<close> writes succeeds. It does not: \<^verbatim>\<open>getString\<close> returns \<^verbatim>\<open>false\<close>
  whenever no byte comes before the terminator.
\<close>

theorem empty_string_roundtrip_counterexample:
  "\<not> fst (getString (replicate 8 0x41) 8
           (startProtocol ()
              (sent (startProtocol () [] (new_protocol DeviceHexProtocol))
                 (snd (putString [] (startProtocol () [] (new_protocol DeviceHexProtocol)))))
              (new_protocol StreamHexProtocol)))"
  by (simp add: putString_empty)
    (simp add: getString_def readBufferUntilTerminator_def hasStarted_def startProtocol_def
      new_protocol_def sent_def numeral_eq_Suc)

text \<open>
  Claim C8, amended. On a started protocol object \<^verbatim>\<open>putString\<close> of the empty string
  writes exactly one byte, the terminator, and returns \<^verbatim>\<open>true\<close>. Reading that byte back
  with \<^verbatim>\<open>getString\<close> into a buffer of two bytes or more consumes it, leaves the empty
  string in the buffer, and returns \<^verbatim>\<open>false\<close>.
\<close>

theorem empty_string_put_and_get:
  assumes "started w" and "started r" and "2 \<le> sz" and "sz \<le> length strbuf"
  shows "putString [] w = (True, w\<lparr>tx := tx w @ [PROT_TERM_CHAR]\<rparr>)
       \<and> sent w (snd (putString [] w)) = [PROT_TERM_CHAR]
       \<and> (case getString strbuf sz (r\<lparr>rx := sent w (snd (putString [] w)) @ rest\<rparr>) of
            (ok, strbuf', r') \<Rightarrow> \<not> ok \<and> c_str strbuf' = [] \<and> rx r' = rest)"
proof -
  from assms(3,4) obtain x xs where "strbuf = x # xs"
    by (cases strbuf) auto
  then have "c_str (strbuf[0 := 0]) = []"
    by (simp add: c_str_def)
  then show ?thesis
    by (simp add: putString_empty [OF assms(1)] getString_TERM [OF assms(2,3)])
qed

theorem empty_string_put_and_get_witness:
  "started (startProtocol () [] (new_protocol DeviceHexProtocol))
   \<and> started (startProtocol () [] (new_protocol StreamHexProtocol))
   \<and> (2::nat) \<le> 8 \<and> 8 \<le> length (replicate 8 (0x41 :: prot_byte_t))
   \<and> (putString [] (startProtocol () [] (new_protocol DeviceHexProtocol))
         = (True, startProtocol () [] (new_protocol DeviceHexProtocol)
              \<lparr>tx := tx (startProtocol () [] (new_protocol DeviceHexProtocol)) @ [PROT_TERM_CHAR]\<rparr>)
       \<and> sent (startProtocol () [] (new_protocol DeviceHexProtocol))
            (snd (putString [] (startProtocol () [] (new_protocol DeviceHexProtocol))))
         = [PROT_TERM_CHAR]
       \<and> (case getString (replicate 8 0x41) 8
                 (startProtocol () [] (new_protocol StreamHexProtocol)
                    \<lparr>rx := sent (startProtocol () [] (new_protocol DeviceHexProtocol))
                        (snd (putString [] (startProtocol () [] (new_protocol DeviceHexProtocol))))
                      @ []\<rparr>) of
            (ok, strbuf', r') \<Rightarrow> \<not> ok \<and> c_str strbuf' = [] \<and> rx r' = []))"
proof -
  have w: "started (startProtocol () [] (new_protocol DeviceHexProtocol))"
    and r: "started (startProtocol () [] (new_protocol StreamHexProtocol))"
    and sz: "(2::nat) \<le> 8"
    and len: "8 \<le> length (replicate 8 (0x41 :: prot_byte_t))"
    by simp_all
  show ?thesis
    by (rule conjI [OF w conjI [OF r conjI [OF sz conjI [OF len
          empty_string_put_and_get [OF w r sz len, where rest = "[]"]]]]])
qed

subsection \<open>Replies and commands of the responder\<close>

lemma writeBuf_text_PROT_ERROR: "writeBuf_text False PROT_ERROR = ascii ''15''"
  by (simp add: writeBuf_text_def prot_ultohexstr_def ultoa16.simps hexdigit_def ascii_def
      PROT_ERROR_def)

text \<open>
  Claim C9. \<^verbatim>\<open>replyError\<close> always returns \<^verbatim>\<open>false\<close>, and on a started protocol object,
  the only one on which a command can arrive, every call writes exactly one value: the
  error sentinel \<^verbatim>\<open>0x15\<close> through the command codec, that is the text \<^verbatim>\<open>15\<close> and one
  terminator. Before \<^verbatim>\<open>startProtocol\<close> the guard of \<^verbatim>\<open>writeBuffer\<close> lets nothing out, and
  the result is \<^verbatim>\<open>false\<close> all the same.
\<close>

theorem replyError_writes_PROT_ERROR:
  "\<not> fst (replyError p)
   \<and> (started p \<longrightarrow>
        replyError p = (False, p\<lparr>tx := tx p @ ascii ''15'' @ [PROT_TERM_CHAR]\<rparr>)
        \<and> sent p (snd (replyError p)) = wire_value False (0x15 :: prot_cmd_t))
   \<and> (\<not> started p \<longrightarrow> replyError p = (False, p))"
proof -
  have "wire_value False (0x15 :: prot_cmd_t) = ascii ''15'' @ [PROT_TERM_CHAR]"
    using writeBuf_text_PROT_ERROR by (simp add: wire_value_def PROT_ERROR_def)
  then show ?thesis
    by (cases "started p")
      (simp_all add: replyError_def putValue_started putValue_not_started
        writeBuf_text_PROT_ERROR)
qed

theorem replyError_writes_PROT_ERROR_witness:
  "started (startProtocol () [] (new_protocol StreamHexProtocol))
   \<and> replyError (startProtocol () [] (new_protocol StreamHexProtocol))
       = (False, startProtocol () [] (new_protocol StreamHexProtocol)
            \<lparr>tx := ascii ''15'' @ [PROT_TERM_CHAR]\<rparr>)
   \<and> \<not> started (new_protocol StreamHexProtocol)
   \<and> replyError (new_protocol StreamHexProtocol) = (False, new_protocol StreamHexProtocol)"
  using replyError_writes_PROT_ERROR [of "startProtocol () [] (new_protocol StreamHexProtocol)"]
    replyError_writes_PROT_ERROR [of "new_protocol StreamHexProtocol"]
  by (simp add: startProtocol_def new_protocol_def)

lemma readByte_fails:
  "\<not> started p \<or> rx p = [] \<Longrightarrow> fst (readByte p) = None"
  by (cases "derived p") (auto simp: readByte_def hasStarted_def)

text \<open>
  Claim C10. Whenever \<^verbatim>\<open>readByte\<close> fails, as it does when the protocol is not started or
  no byte is there, \<^verbatim>\<open>getCommand\<close> returns \<^verbatim>\<open>PROT_ERROR\<close>, which is \<^verbatim>\<open>0x15\<close>; whenever \<^verbatim>\<open>readByte\<close> delivers the byte \<^verbatim>\<open>0x15\<close>, \<^verbatim>\<open>getCommand\<close> returns
  \<^verbatim>\<open>0x15\<close> as well. So the two results are equal, and the responder cannot tell a failed
  read from a received \<^verbatim>\<open>0x15\<close>.
\<close>

theorem getCommand_failure_is_PROT_ERROR:
  assumes "\<not> started p \<or> rx p = [] \<or> fst (readByte p) = None"
    and "fst (readByte q) = Some 0x15"
  shows "fst (getCommand p) = PROT_ERROR \<and> PROT_ERROR = 0x15
       \<and> fst (getCommand q) = 0x15 \<and> fst (getCommand p) = fst (getCommand q)"
proof -
  from assms(1) have "fst (readByte p) = None"
    using readByte_fails [of p] by blast
  then have "fst (getCommand p) = PROT_ERROR"
    by (cases "readByte p") (simp add: getCommand_def)
  moreover from assms(2) have "fst (getCommand q) = 0x15"
    by (cases "readByte q") (simp add: getCommand_def)
  ultimately show ?thesis
    by (simp add: PROT_ERROR_def)
qed

theorem getCommand_failure_is_PROT_ERROR_witness:
  "fst (readByte (new_protocol StreamHexProtocol)) = None
   \<and> fst (readByte (startProtocol () [] (new_protocol StreamHexProtocol))) = None
   \<and> fst (readByte (startProtocol () [0x15] (new_protocol StreamHexProtocol))) = Some 0x15
   \<and> fst (getCommand (new_protocol StreamHexProtocol)) = 0x15
   \<and> fst (getCommand (startProtocol () [] (new_protocol StreamHexProtocol))) = 0x15
   \<and> fst (getCommand (startProtocol () [0x15] (new_protocol StreamHexProtocol))) = 0x15"
proof -
  have p1: "fst (readByte (new_protocol StreamHexProtocol)) = None"
    by (simp add: readByte_fails new_protocol_def)
  have p2: "fst (readByte (startProtocol () [] (new_protocol StreamHexProtocol))) = None"
    by (simp add: readByte_fails startProtocol_def)
  have q: "fst (readByte (startProtocol () [0x15] (new_protocol StreamHexProtocol))) = Some 0x15"
    by (simp add: readByte_def hasStarted_def startProtocol_def new_protocol_def)
  show ?thesis
    using p1 p2 q getCommand_failure_is_PROT_ERROR [OF disjI2 [OF disjI2 [OF p1]] q]
      getCommand_failure_is_PROT_ERROR [OF disjI2 [OF disjI2 [OF p2]] q]
    by simp
qed

lemma writeBuf_text_cmd_O: "writeBuf_text False (0x4f :: prot_cmd_t) = ascii ''4f''"
  by (simp add: writeBuf_text_def prot_ultohexstr_def ultoa16.simps hexdigit_def ascii_def)

lemma writeBuf_text_31: "writeBuf_text False (0x1f :: 16 word) = ascii ''1f''"
  by (simp add: writeBuf_text_def prot_ultohexstr_def ultoa16.simps hexdigit_def ascii_def)

lemma putString_ok:
  "started p \<Longrightarrow>
     putString (ascii ''ok'') p = (True, p\<lparr>tx := tx p @ ascii ''ok'' @ [PROT_TERM_CHAR]\<rparr>)"
  by (simp add: putString_def strlen_def c_str_def writeBuffer_def hasStarted_def ascii_def)

text \<open>
  Claim C3 says that every handler of the responder emits exactly one reply. The forms
  of \<^verbatim>\<open>processGet\<close> and \<^verbatim>\<open>processGetString\<close> without a delegate do not: when the task
  \<^verbatim>\<open>__beforeGet\<close> fails they write the error sentinel and then the echo and the value as
  well. The forms with a delegate return after \<^verbatim>\<open>replyError()\<close> and write the sentinel
  only.
\<close>

theorem processGet_replies_twice:
  "processGet False 0x4f (0x1f :: 16 word) (Some (\<lambda>dev. (False, dev)))
       (startProtocol () [] (new_protocol StreamHexProtocol))
     = (True, startProtocol () [] (new_protocol StreamHexProtocol)
          \<lparr>tx := ascii ''15'' @ [PROT_TERM_CHAR] @ ascii ''4f'' @ [PROT_TERM_CHAR]
                  @ ascii ''1f'' @ [PROT_TERM_CHAR]\<rparr>)
   \<and> processGetString 0x4f (ascii ''ok'') (Some (\<lambda>dev. (False, dev)))
       (startProtocol () [] (new_protocol StreamHexProtocol))
     = (True, startProtocol () [] (new_protocol StreamHexProtocol)
          \<lparr>tx := ascii ''15'' @ [PROT_TERM_CHAR] @ ascii ''4f'' @ [PROT_TERM_CHAR]
                  @ ascii ''ok'' @ [PROT_TERM_CHAR]\<rparr>)
   \<and> processGet_fn False 0x4f (\<lambda>dev. (None :: 16 word option, dev))
       (startProtocol () [] (new_protocol StreamHexProtocol))
     = (False, startProtocol () [] (new_protocol StreamHexProtocol)
          \<lparr>tx := ascii ''15'' @ [PROT_TERM_CHAR]\<rparr>)"
proof -
  let ?p = "startProtocol () [] (new_protocol StreamHexProtocol)"
  have err: "replyError ?p = (False, ?p\<lparr>tx := ascii ''15'' @ [PROT_TERM_CHAR]\<rparr>)"
    by (simp add: replyError_def putValue_started writeBuf_text_PROT_ERROR)
      (simp add: startProtocol_def)
  have call: "call_target (\<lambda>dev. (r, dev)) n ?p = (r, ?p)" for r n :: 'r
    by (simp add: call_target_def startProtocol_def new_protocol_def)
  have tx: "tx ?p = []"
    by (simp add: startProtocol_def)
  have a: "processGet False 0x4f (0x1f :: 16 word) (Some (\<lambda>dev. (False, dev))) ?p
      = (True, ?p\<lparr>tx := ascii ''15'' @ [PROT_TERM_CHAR] @ ascii ''4f'' @ [PROT_TERM_CHAR]
                  @ ascii ''1f'' @ [PROT_TERM_CHAR]\<rparr>)"
    by (simp add: processGet_def call err and_then_def reply_def putValue_started
        writeBuf_text_cmd_O writeBuf_text_31)
  have b: "processGetString 0x4f (ascii ''ok'') (Some (\<lambda>dev. (False, dev))) ?p
      = (True, ?p\<lparr>tx := ascii ''15'' @ [PROT_TERM_CHAR] @ ascii ''4f'' @ [PROT_TERM_CHAR]
                  @ ascii ''ok'' @ [PROT_TERM_CHAR]\<rparr>)"
    by (simp add: processGetString_def call err and_then_def reply_def putValue_started
        writeBuf_text_cmd_O putString_ok)
  have c: "processGet_fn False 0x4f (\<lambda>dev. (None :: 16 word option, dev)) ?p
      = (False, ?p\<lparr>tx := ascii ''15'' @ [PROT_TERM_CHAR]\<rparr>)"
    by (simp add: processGet_fn_def call err)
  show ?thesis
    by (rule conjI [OF a conjI [OF b c]])
qed

subsection \<open>Array exchanges of the initiator\<close>

lemma readBufferUntilTerminator_tx:
  "readBufferUntilTerminator buffer sz t (p\<lparr>tx := x\<rparr>)
     = (case readBufferUntilTerminator buffer sz t p of (n, b, p') \<Rightarrow> (n, b, p'\<lparr>tx := x\<rparr>))"
  by (cases "derived p")
    (auto simp: readBufferUntilTerminator_def hasStarted_def Let_def
      split: prod.splits option.splits)

lemma getValue_tx:
  "getValue sg (p\<lparr>tx := x\<rparr>) = (case getValue sg p of (v, p') \<Rightarrow> (v, p'\<lparr>tx := x\<rparr>))"
  by (simp add: getValue_def readBufferUntilTerminator_tx Let_def split: prod.splits)

lemma checkReply_tx:
  "checkReply cmd (p\<lparr>tx := x\<rparr>) = (case checkReply cmd p of (b, p') \<Rightarrow> (b, p'\<lparr>tx := x\<rparr>))"
  by (simp add: checkReply_def getValue_tx split: prod.splits option.splits)

lemma check_replies_tx:
  "check_replies cmd n (p\<lparr>tx := x\<rparr>)
     = (case check_replies cmd n p of (b, p') \<Rightarrow> (b, p'\<lparr>tx := x\<rparr>))"
proof (induction n arbitrary: p)
  case 0
  show ?case by simp
next
  case (Suc n)
  show ?case
    by (cases "checkReply cmd p") (simp add: checkReply_tx Suc.IH split: bool.splits)
qed

lemma checkReply_keeps [simp]:
  "started (snd (checkReply cmd p)) = started p" "tx (snd (checkReply cmd p)) = tx p"
  using checkReply_frame [of cmd p] by auto

lemma getValue_keeps [simp]:
  "started (snd (getValue sg p :: 'a::len word option \<times> _)) = started p"
  "tx (snd (getValue sg p :: 'a::len word option \<times> _)) = tx p"
proof -
  obtain rest where "snd (getValue sg p :: 'a word option \<times> _) = p\<lparr>rx := rest\<rparr>"
    using getValue_frame by blast
  then show "started (snd (getValue sg p :: 'a word option \<times> _)) = started p"
    and "tx (snd (getValue sg p :: 'a word option \<times> _)) = tx p"
    by simp_all
qed

lemma putValue_wire:
  "started p \<Longrightarrow> putValue sg v p = (True, p\<lparr>tx := tx p @ wire_value sg v\<rparr>)"
  by (simp add: putValue_started wire_value_def)

lemma check_replies_keeps [simp]:
  "started (snd (check_replies cmd n p)) = started p"
  "tx (snd (check_replies cmd n p)) = tx p"
proof (induction n arbitrary: p)
  case 0
  {
    case 1 show ?case by simp
  next
    case 2 show ?case by simp
  }
next
  case (Suc n)
  {
    case 1
    show ?case
      using Suc.IH(1) [of "snd (checkReply cmd p)"] checkReply_keeps(1) [of cmd p]
      by (cases "checkReply cmd p") (auto split: bool.splits)
  next
    case 2
    show ?case
      using Suc.IH(2) [of "snd (checkReply cmd p)"] checkReply_keeps(2) [of cmd p]
      by (cases "checkReply cmd p") (auto split: bool.splits)
  }
qed

lemma array_size_exchange:
  "started p \<Longrightarrow>
     and_then (putCommand cmd) (and_then (putValue False SUBCMD_ARRAY_SIZE) (checkReply cmd)) p
       = checkReply cmd (p\<lparr>tx := tx p @ array_size_request cmd\<rparr>)"
  by (simp add: and_then_def putCommand_started putValue_wire array_size_request_def)

lemma array_starting_exchange:
  "started p \<Longrightarrow>
     and_then (putCommand cmd) (and_then (putValue False SUBCMD_ARRAY_STARTING) (checkReply cmd)) p
       = checkReply cmd (p\<lparr>tx := tx p @ array_starting_request cmd\<rparr>)"
  by (simp add: and_then_def putCommand_started putValue_wire array_starting_request_def)

lemma array_finished_exchange:
  "started p \<Longrightarrow>
     and_then (putCommand cmd)
       (and_then (putValue False SUBCMD_ARRAY_FINISHED)
         (and_then (putValue False sz) (checkReply cmd))) p
       = checkReply cmd (p\<lparr>tx := tx p @ array_finished_request cmd sz\<rparr>)"
  by (simp add: and_then_def putCommand_started putValue_wire array_finished_request_def)

lemma array_set_element_exchange:
  "started p \<Longrightarrow>
     and_then (putCommand cmd)
       (and_then (putValue False SUBCMD_ARRAY_ELEMENT)
         (and_then (putValue False (i :: prot_size_t))
           (and_then (putValue sg (pt ! unat i)) (checkReply cmd)))) p
       = checkReply cmd (p\<lparr>tx := tx p @ array_set_element_request sg cmd pt (unat i)\<rparr>)"
  by (simp add: and_then_def putCommand_started putValue_wire array_set_element_request_def)

lemma array_get_element_exchange:
  "started p \<Longrightarrow>
     and_then (putCommand cmd)
       (and_then (putValue False SUBCMD_ARRAY_ELEMENT)
         (and_then (putValue False (i :: prot_size_t)) (checkReply cmd))) p
       = checkReply cmd (p\<lparr>tx := tx p @ array_get_element_request cmd (unat i)\<rparr>)"
  by (simp add: and_then_def putCommand_started putValue_wire array_get_element_request_def)

lemma unat_index_Suc: "i < (sz :: prot_size_t) \<Longrightarrow> unat (i + 1) = Suc (unat i)"
  by unat_arith

lemma unat_index_left: "i < (sz :: prot_size_t) \<Longrightarrow> unat sz - unat i = Suc (unat sz - unat (i + 1))"
  by unat_arith

lemma unat_index_done: "\<not> i < (sz :: prot_size_t) \<Longrightarrow> unat sz - unat i = 0"
  by unat_arith


lemma dispatchSetArray_elements_trace:
  "started p \<Longrightarrow>
     \<exists>k \<le> unat sz - unat i.
       dispatchSetArray_elements sg cmd pt sz i p
         = (fst (check_replies cmd (unat sz - unat i) p),
            (snd (check_replies cmd k p))
              \<lparr>tx := tx p @ concat (map (array_set_element_request sg cmd pt)
                                  [unat i ..< unat i + k])\<rparr>)
       \<and> (fst (check_replies cmd (unat sz - unat i) p) \<longrightarrow> k = unat sz - unat i)"
proof (induction sg cmd pt sz i p rule: dispatchSetArray_elements.induct)
  case (1 sg cmd pt sz i p)
  let ?E = "array_set_element_request sg cmd pt"
  show ?case
  proof (cases "i < sz")
    case False
    then have "dispatchSetArray_elements sg cmd pt sz i p = (True, p)"
      by (simp add: dispatchSetArray_elements.simps [of sg cmd pt sz i p])
    moreover have "unat sz - unat i = 0"
      using False by (rule unat_index_done)
    ultimately show ?thesis by simp
  next
    case True
    obtain b q where cr: "checkReply cmd p = (b, q)"
      by (cases "checkReply cmd p")
    have q: "started q" "tx q = tx p"
      using checkReply_keeps [of cmd p] cr "1.prems" by simp_all
    let ?q = "q\<lparr>tx := tx p @ ?E (unat i)\<rparr>"
    have step: "and_then (putCommand cmd)
        (and_then (putValue False SUBCMD_ARRAY_ELEMENT)
          (and_then (putValue False i)
            (and_then (putValue sg (pt ! unat i)) (checkReply cmd)))) p = (b, ?q)"
      using "1.prems" cr by (simp add: array_set_element_exchange checkReply_tx)
    have left: "unat sz - unat i = Suc (unat sz - unat (i + 1))"
      using True by (rule unat_index_left)
    have next_i: "unat (i + 1) = Suc (unat i)"
      using True by (rule unat_index_Suc)
    show ?thesis
    proof (cases b)
      case False
      have "dispatchSetArray_elements sg cmd pt sz i p = (False, ?q)"
        using True step False
        by (simp add: dispatchSetArray_elements.simps [of sg cmd pt sz i p])
      moreover have "check_replies cmd (Suc n) p = (False, q)" for n
        using cr False by simp
      ultimately show ?thesis
        by (intro exI [of _ 1]) (simp add: left)
    next
      case b: True
      have "started ?q"
        using q by simp
      moreover have bT: "b = True"
        using b by simp
      ultimately have "\<exists>k \<le> unat sz - unat (i + 1).
          dispatchSetArray_elements sg cmd pt sz (i + 1) ?q
            = (fst (check_replies cmd (unat sz - unat (i + 1)) ?q),
               (snd (check_replies cmd k ?q))
                 \<lparr>tx := tx ?q @ concat (map ?E [unat (i + 1) ..< unat (i + 1) + k])\<rparr>)
          \<and> (fst (check_replies cmd (unat sz - unat (i + 1)) ?q)
               \<longrightarrow> k = unat sz - unat (i + 1))"
        using "1.IH" [OF True step [symmetric]] by blast
      then
      obtain k where k: "k \<le> unat sz - unat (i + 1)"
        and run: "dispatchSetArray_elements sg cmd pt sz (i + 1) ?q
          = (fst (check_replies cmd (unat sz - unat (i + 1)) ?q),
             (snd (check_replies cmd k ?q))
               \<lparr>tx := tx ?q @ concat (map ?E [unat (i + 1) ..< unat (i + 1) + k])\<rparr>)"
        and full: "fst (check_replies cmd (unat sz - unat (i + 1)) ?q)
          \<longrightarrow> k = unat sz - unat (i + 1)"
        by blast
      have fst_tx: "fst (check_replies cmd n ?q) = fst (check_replies cmd n q)" for n
        by (simp add: check_replies_tx split_beta)
      have snd_tx: "(snd (check_replies cmd n ?q))\<lparr>tx := x\<rparr>
          = (snd (check_replies cmd n q))\<lparr>tx := x\<rparr>" for n x
        by (simp add: check_replies_tx split_beta)
      have suc: "check_replies cmd (Suc n) p = check_replies cmd n q" for n
        using cr b by simp
      have unfold: "dispatchSetArray_elements sg cmd pt sz i p
          = dispatchSetArray_elements sg cmd pt sz (i + 1) ?q"
        using True step b
        by (simp add: dispatchSetArray_elements.simps [of sg cmd pt sz i p])
      have range: "[unat i ..< unat i + Suc k] = unat i # [Suc (unat i) ..< Suc (unat i) + k]"
        by (simp add: upt_conv_Cons)
      show ?thesis
      proof (intro exI [of _ "Suc k"] conjI)
        show "Suc k \<le> unat sz - unat i"
          using k left by simp
        show "dispatchSetArray_elements sg cmd pt sz i p
            = (fst (check_replies cmd (unat sz - unat i) p),
               (snd (check_replies cmd (Suc k) p))
                 \<lparr>tx := tx p @ concat (map ?E [unat i ..< unat i + Suc k])\<rparr>)"
          unfolding unfold run left suc fst_tx snd_tx range next_i
          by simp
        show "fst (check_replies cmd (unat sz - unat i) p) \<longrightarrow> Suc k = unat sz - unat i"
          using full unfolding left suc fst_tx by simp
      qed
    qed
  qed
qed


lemma check_replies_add:
  "check_replies cmd (n + m) p
     = (case check_replies cmd n p of
          (False, q) \<Rightarrow> (False, q)
        | (True, q) \<Rightarrow> check_replies cmd m q)"
proof (induction n arbitrary: p)
  case 0
  show ?case by simp
next
  case (Suc n)
  show ?case
    by (cases "checkReply cmd p") (simp add: Suc.IH split: bool.splits)
qed

lemma fst_checkReply_tx: "fst (checkReply cmd (p\<lparr>tx := x\<rparr>)) = fst (checkReply cmd p)"
  by (simp add: checkReply_tx split_beta)

lemma fst_check_replies_tx:
  "fst (check_replies cmd n (p\<lparr>tx := x\<rparr>)) = fst (check_replies cmd n p)"
  by (simp add: check_replies_tx split_beta)

lemma snd_check_replies_tx:
  "(snd (check_replies cmd n (p\<lparr>tx := x\<rparr>)))\<lparr>tx := y\<rparr> = (snd (check_replies cmd n p))\<lparr>tx := y\<rparr>"
  by (simp add: check_replies_tx split_beta)

lemma check_replies_one: "fst (check_replies cmd (Suc 0) p) = fst (checkReply cmd p)"
  by (cases "checkReply cmd p") (simp split: bool.splits)

lemma dispatchSetArray_size_step:
  assumes "started p"
    and "checkReply cmd p = (replied, p1)"
    and "getValue False p1 = (maxSize :: prot_size_t option, p2)"
  shows "dispatchSetArray sg cmd pt sz p =
     (if \<not> replied then (False, p1\<lparr>tx := tx p @ array_size_request cmd\<rparr>)
      else if \<not> (case maxSize of None \<Rightarrow> False | Some m \<Rightarrow> sz \<le> m)
        then (False, p2\<lparr>tx := tx p @ array_size_request cmd\<rparr>)
      else
        (case dispatchSetArray_elements sg cmd pt sz 0 (p2\<lparr>tx := tx p @ array_size_request cmd\<rparr>) of
           (False, p3) \<Rightarrow> (False, p3)
         | (True, p3) \<Rightarrow>
             and_then (putCommand cmd)
               (and_then (putValue False SUBCMD_ARRAY_FINISHED)
                 (and_then (putValue False sz) (checkReply cmd))) p3))"
  using assms
  by (simp add: dispatchSetArray_def array_size_exchange checkReply_tx getValue_tx
      split: option.splits)


lemma sent_tx: "tx q = tx p @ bs \<Longrightarrow> sent p q = bs"
  by (simp add: sent_def)

lemma dispatchSetArray_refused:
  assumes "started p"
    and "checkReply cmd p = (replied, p1)"
    and "getValue False p1 = (maxSize :: prot_size_t option, p2)"
    and "\<not> (replied \<and> (case maxSize of None \<Rightarrow> False | Some m \<Rightarrow> sz \<le> m))"
  shows "\<not> fst (dispatchSetArray sg cmd pt sz p)
       \<and> sent p (snd (dispatchSetArray sg cmd pt sz p)) = array_size_request cmd"
proof -
  have "tx p1 = tx p"
    using checkReply_keeps(2) [of cmd p] assms(2) by simp
  moreover have "tx p2 = tx p1"
    using getValue_keeps(2) [of False p1, where 'a = 16] assms(3) by simp
  ultimately show ?thesis
    using assms(4)
    by (auto simp: dispatchSetArray_size_step [OF assms(1,2,3)] sent_def)
qed

lemma dispatchSetArray_run:
  assumes "started p"
    and "checkReply cmd p = (True, p1)"
    and "getValue False p1 = (Some m, p2)"
    and "sz \<le> m"
  shows "\<exists>k \<le> unat sz.
           (\<not> fst (check_replies cmd (unat sz) p2)
            \<and> \<not> fst (dispatchSetArray sg cmd pt sz p)
            \<and> sent p (snd (dispatchSetArray sg cmd pt sz p))
                = array_size_request cmd
                  @ concat (map (array_set_element_request sg cmd pt) [0..<k]))
         \<or> (fst (check_replies cmd (unat sz) p2)
            \<and> fst (dispatchSetArray sg cmd pt sz p) = fst (check_replies cmd (unat sz + 1) p2)
            \<and> sent p (snd (dispatchSetArray sg cmd pt sz p))
                = array_size_request cmd
                  @ concat (map (array_set_element_request sg cmd pt) [0..<unat sz])
                  @ array_finished_request cmd sz)"
proof -
  let ?T = "tx p @ array_size_request cmd"
  let ?C = "\<lambda>k. concat (map (array_set_element_request sg cmd pt) [0..<k])"
  let ?R = "dispatchSetArray sg cmd pt sz p"
  have p1: "started p1"
    using checkReply_keeps(1) [of cmd p] assms(1,2) by simp
  have p2: "started p2"
    using getValue_keeps(1) [of False p1, where 'a = 16] assms(3) p1 by simp
  then have st: "started (p2\<lparr>tx := ?T\<rparr>)"
    by simp
  from dispatchSetArray_elements_trace [OF st, of sz 0 sg cmd pt]
  obtain k where k: "k \<le> unat sz"
    and run: "dispatchSetArray_elements sg cmd pt sz 0 (p2\<lparr>tx := ?T\<rparr>)
      = (fst (check_replies cmd (unat sz) p2),
         (snd (check_replies cmd k p2))\<lparr>tx := ?T @ ?C k\<rparr>)"
    and full: "fst (check_replies cmd (unat sz) p2) \<longrightarrow> k = unat sz"
    by (auto simp: fst_check_replies_tx snd_check_replies_tx)
  have R: "?R =
      (case dispatchSetArray_elements sg cmd pt sz 0 (p2\<lparr>tx := ?T\<rparr>) of
         (False, p3) \<Rightarrow> (False, p3)
       | (True, p3) \<Rightarrow>
           and_then (putCommand cmd)
             (and_then (putValue False SUBCMD_ARRAY_FINISHED)
               (and_then (putValue False sz) (checkReply cmd))) p3)"
    using assms(4) by (simp add: dispatchSetArray_size_step [OF assms(1,2,3)])
  show ?thesis
  proof (cases "fst (check_replies cmd (unat sz) p2)")
    case False
    then have "?R = (False, (snd (check_replies cmd k p2))\<lparr>tx := ?T @ ?C k\<rparr>)"
      by (simp add: R run)
    then have "\<not> fst ?R \<and> sent p (snd ?R) = array_size_request cmd @ ?C k"
      by (simp add: sent_def)
    with False k show ?thesis
      by blast
  next
    case True
    with full have kk: "k = unat sz"
      by simp
    let ?q = "snd (check_replies cmd (unat sz) p2)"
    let ?p3 = "?q\<lparr>tx := ?T @ ?C (unat sz)\<rparr>"
    have p3: "started ?p3"
      using p2 by simp
    have "?R = and_then (putCommand cmd)
        (and_then (putValue False SUBCMD_ARRAY_FINISHED)
          (and_then (putValue False sz) (checkReply cmd))) ?p3"
      using True by (simp add: R run kk)
    also have "\<dots> = checkReply cmd (?p3\<lparr>tx := tx ?p3 @ array_finished_request cmd sz\<rparr>)"
      by (rule array_finished_exchange [OF p3])
    finally have Rq: "?R = checkReply cmd
        (?q\<lparr>tx := ?T @ ?C (unat sz) @ array_finished_request cmd sz\<rparr>)"
      by simp
    have "fst ?R = fst (checkReply cmd ?q)"
      unfolding Rq by (rule fst_checkReply_tx)
    moreover have "fst (check_replies cmd (unat sz + 1) p2) = fst (checkReply cmd ?q)"
      using True check_replies_add [of cmd "unat sz" 1 p2]
      by (cases "check_replies cmd (unat sz) p2")
        (simp add: check_replies_one del: check_replies.simps)
    moreover have "tx (snd ?R) = tx p @ array_size_request cmd @ ?C (unat sz)
        @ array_finished_request cmd sz"
      unfolding Rq by simp
    then have "sent p (snd ?R)
        = array_size_request cmd @ ?C (unat sz) @ array_finished_request cmd sz"
      by (rule sent_tx)
    ultimately show ?thesis
      using True by (intro exI [of _ "unat sz"]) simp
  qed
qed


lemma check_replies_fail_more:
  "\<not> fst (check_replies cmd n p) \<Longrightarrow> \<not> fst (check_replies cmd (n + m) p)"
  by (cases "check_replies cmd n p") (simp add: check_replies_add del: check_replies.simps)

text \<open>
  Claim C6. On a started protocol object \<^verbatim>\<open>dispatchSetArray\<close>, for an array \<open>pt\<close> of
  length \<open>sz\<close>, first sends the request for the remote maximum size. With \<open>replied\<close> the
  result of the reply check that follows and \<open>maxSize\<close> the value read after it: if the
  reply does not match, no maximum arrives or \<open>sz\<close> exceeds it, the result is \<^verbatim>\<open>false\<close>
  and nothing but the size request was sent. Otherwise the element requests follow in
  increasing order of the index from 0, each carrying the index and the element, and the
  request that finishes the array, carrying \<open>sz\<close>, comes after all of them. The result is
  \<^verbatim>\<open>true\<close> exactly when the length fits and the reply checks of all elements and of the
  finishing request succeed, and then every request was sent.
\<close>

theorem dispatchSetArray_exchange:
  assumes "started p" and "unat sz = length pt"
  shows "case checkReply cmd p of
           (replied, p1) \<Rightarrow>
             (case getValue False p1 of
                (maxSize, p2) \<Rightarrow>
                  (let fits = (replied \<and> (case maxSize of None \<Rightarrow> False
                                           | Some (m :: prot_size_t) \<Rightarrow> sz \<le> m));
                       res = dispatchSetArray sg cmd pt sz p;
                       elements = (\<lambda>k. concat (map (array_set_element_request sg cmd pt) [0..<k]))
                   in (\<not> fits \<longrightarrow> \<not> fst res \<and> sent p (snd res) = array_size_request cmd)
                    \<and> (fits \<longrightarrow>
                         (\<exists>k \<le> length pt. \<not> fst res
                            \<and> sent p (snd res) = array_size_request cmd @ elements k)
                         \<or> sent p (snd res)
                             = array_size_request cmd @ elements (length pt)
                               @ array_finished_request cmd sz)
                    \<and> (fst res \<longleftrightarrow> fits \<and> fst (check_replies cmd (length pt + 1) p2))
                    \<and> (fst res \<longrightarrow>
                         sent p (snd res)
                           = array_size_request cmd @ elements (length pt)
                             @ array_finished_request cmd sz)))"
proof -
  obtain replied p1 where cr: "checkReply cmd p = (replied, p1)"
    by (cases "checkReply cmd p")
  obtain maxSize :: "prot_size_t option" and p2 where gv: "getValue False p1 = (maxSize, p2)"
    by (cases "getValue False p1 :: prot_size_t option \<times> _")
  let ?fits = "replied \<and> (case maxSize of None \<Rightarrow> False | Some m \<Rightarrow> sz \<le> m)"
  let ?res = "dispatchSetArray sg cmd pt sz p"
  let ?elements = "\<lambda>k. concat (map (array_set_element_request sg cmd pt) [0..<k])"
  let ?all = "array_size_request cmd @ ?elements (length pt) @ array_finished_request cmd sz"
  have main: "(\<not> ?fits \<longrightarrow> \<not> fst ?res \<and> sent p (snd ?res) = array_size_request cmd)
      \<and> (?fits \<longrightarrow>
           (\<exists>k \<le> length pt. \<not> fst ?res
              \<and> sent p (snd ?res) = array_size_request cmd @ ?elements k)
           \<or> sent p (snd ?res) = ?all)
      \<and> (fst ?res \<longleftrightarrow> ?fits \<and> fst (check_replies cmd (length pt + 1) p2))
      \<and> (fst ?res \<longrightarrow> sent p (snd ?res) = ?all)"
  proof (cases ?fits)
    case False
    from dispatchSetArray_refused [OF assms(1) cr gv False, of sg pt] False
    show ?thesis by blast
  next
    case True
    then obtain m where "replied" and "maxSize = Some m" and "sz \<le> m"
      by (cases maxSize) auto
    with cr gv have cr': "checkReply cmd p = (True, p1)"
      and gv': "getValue False p1 = (Some m, p2)"
      by simp_all
    from dispatchSetArray_run [OF assms(1) cr' gv' \<open>sz \<le> m\<close>, of sg pt]
    obtain k where "k \<le> length pt"
      and "(\<not> fst (check_replies cmd (length pt) p2) \<and> \<not> fst ?res
              \<and> sent p (snd ?res) = array_size_request cmd @ ?elements k)
         \<or> (fst (check_replies cmd (length pt) p2)
              \<and> fst ?res = fst (check_replies cmd (length pt + 1) p2)
              \<and> sent p (snd ?res) = ?all)"
      unfolding assms(2) by blast
    with True check_replies_fail_more [of cmd "length pt" p2 1]
    show ?thesis by blast
  qed
  show ?thesis
    unfolding cr gv Let_def prod.case by (rule main)
qed


lemma dispatchGetArray_elements_trace:
  fixes arr :: "'a::len word list"
  shows "started p \<Longrightarrow>
     \<exists>k. tx (snd (snd (dispatchGetArray_elements sg cmd sz i arr p)))
           = tx p @ concat (map (array_get_element_request cmd) [unat i ..< unat i + k])"
proof (induction sg cmd sz i arr p rule: dispatchGetArray_elements.induct)
  case (1 sg cmd sz i arr p)
  let ?G = "array_get_element_request cmd"
  show ?case
  proof (cases "i < sz")
    case False
    then have "dispatchGetArray_elements sg cmd sz i arr p = (True, arr, p)"
      by (simp add: dispatchGetArray_elements.simps [of sg cmd sz i arr p])
    then show ?thesis
      by (intro exI [of _ 0]) simp
  next
    case True
    obtain b q where cr: "checkReply cmd p = (b, q)"
      by (cases "checkReply cmd p")
    have q: "started q" "tx q = tx p"
      using checkReply_keeps [of cmd p] cr "1.prems" by simp_all
    let ?q = "q\<lparr>tx := tx p @ ?G (unat i)\<rparr>"
    have step: "and_then (putCommand cmd)
        (and_then (putValue False SUBCMD_ARRAY_ELEMENT)
          (and_then (putValue False i) (checkReply cmd))) p = (b, ?q)"
      using "1.prems" cr by (simp add: array_get_element_exchange checkReply_tx)
    have next_i: "unat (i + 1) = Suc (unat i)"
      using True by (rule unat_index_Suc)
    have one: "[unat i ..< unat i + 1] = [unat i]"
      by simp
    show ?thesis
    proof (cases b)
      case False
      then have "dispatchGetArray_elements sg cmd sz i arr p = (False, arr, ?q)"
        using True step
        by (simp add: dispatchGetArray_elements.simps [of sg cmd sz i arr p])
      then show ?thesis
        by (intro exI [of _ 1]) (simp only: snd_conv one, simp)
    next
      case b: True
      then have bT: "b = True" by simp
      obtain v :: "'a word option" and r where gv: "getValue sg ?q = (v, r)"
        by (cases "getValue sg ?q :: 'a word option \<times> _")
      have r: "started r" "tx r = tx p @ ?G (unat i)"
        using getValue_keeps [of sg ?q, where 'a = 'a] gv q by simp_all
      show ?thesis
      proof (cases v)
        case None
        then have "dispatchGetArray_elements sg cmd sz i arr p = (False, arr, r)"
          using True step b gv
          by (simp add: dispatchGetArray_elements.simps [of sg cmd sz i arr p])
        then show ?thesis
          using r by (intro exI [of _ 1]) (simp only: snd_conv one, simp)
      next
        case (Some el)
        have unfold: "dispatchGetArray_elements sg cmd sz i arr p
            = dispatchGetArray_elements sg cmd sz (i + 1) (arr[unat i := el]) r"
          using True step b gv Some
          by (simp add: dispatchGetArray_elements.simps [of sg cmd sz i arr p])
        have range: "[unat i ..< unat i + Suc k] = unat i # [Suc (unat i) ..< Suc (unat i) + k]"
          for k
          by (simp add: upt_conv_Cons)
        from "1.IH" [OF True step [symmetric] bT gv [symmetric] Some r(1)]
        obtain k where "tx (snd (snd (dispatchGetArray_elements sg cmd sz (i + 1)
              (arr[unat i := el]) r)))
            = tx r @ concat (map ?G [unat (i + 1) ..< unat (i + 1) + k])"
          by blast
        then have "tx (snd (snd (dispatchGetArray_elements sg cmd sz (i + 1)
              (arr[unat i := el]) r)))
            = tx p @ concat (map ?G (unat i # [Suc (unat i) ..< Suc (unat i) + k]))"
          unfolding next_i r(2) by simp
        then have "tx (snd (snd (dispatchGetArray_elements sg cmd sz i arr p)))
            = tx p @ concat (map ?G [unat i ..< unat i + Suc k])"
          unfolding unfold range .
        then show ?thesis
          by blast
      qed
    qed
  qed
qed

lemma dispatchGetArray_trace:
  assumes "started p"
  shows "\<exists>rest k.
           sent p (snd (snd (dispatchGetArray sg cmd arr maxSize sz0 p)))
             = array_starting_request cmd @ rest
           \<and> (rest = []
               \<or> rest = array_size_request cmd
                    @ concat (map (array_get_element_request cmd) [0..<k]))
           \<and> (\<not> fst (checkReply cmd p) \<longrightarrow>
                rest = [] \<and> \<not> fst (dispatchGetArray sg cmd arr maxSize sz0 p))"
proof -
  let ?ST = "array_starting_request cmd"
  let ?SZ = "array_size_request cmd"
  let ?G = "array_get_element_request cmd"
  let ?R = "dispatchGetArray sg cmd arr maxSize sz0 p"
  obtain b q where cr: "checkReply cmd p = (b, q)"
    by (cases "checkReply cmd p")
  have q: "started q" "tx q = tx p"
    using checkReply_keeps [of cmd p] cr assms by simp_all
  let ?p1 = "q\<lparr>tx := tx p @ ?ST\<rparr>"
  have start: "and_then (putCommand cmd)
      (and_then (putValue False SUBCMD_ARRAY_STARTING) (checkReply cmd)) p = (b, ?p1)"
    using assms cr by (simp add: array_starting_exchange checkReply_tx)
  show ?thesis
  proof (cases b)
    case False
    then have "?R = (False, (arr, sz0), ?p1)"
      using start by (simp add: dispatchGetArray_def)
    then have "sent p (snd (snd ?R)) = ?ST @ [] \<and> \<not> fst ?R"
      by (simp add: sent_def)
    then show ?thesis
      by blast
  next
    case b: True
    have p1: "started ?p1"
      using q by simp
    obtain b2 q2 where cr2: "checkReply cmd q = (b2, q2)"
      by (cases "checkReply cmd q")
    have q2: "started q2"
      using checkReply_keeps(1) [of cmd q] cr2 q by simp
    let ?p2 = "q2\<lparr>tx := tx p @ ?ST @ ?SZ\<rparr>"
    have size: "and_then (putCommand cmd)
        (and_then (putValue False SUBCMD_ARRAY_SIZE) (checkReply cmd)) ?p1 = (b2, ?p2)"
      using cr2 by (simp add: array_size_exchange [OF p1] checkReply_tx)
    obtain v p3 where gv: "getValue False ?p2 = (v :: prot_size_t option, p3)"
      by (cases "getValue False ?p2 :: prot_size_t option \<times> _")
    have p3: "started p3" "tx p3 = tx p @ ?ST @ ?SZ"
      using getValue_keeps [of False ?p2, where 'a = 16] gv q2 by simp_all
    have fstb: "fst (checkReply cmd p)"
      using cr b by simp
    have none: "tx p @ ?ST @ ?SZ = tx p @ ?ST @ ?SZ @ concat (map ?G [0..<0])"
      by simp
    have "\<exists>k. tx (snd (snd ?R)) = tx p @ ?ST @ ?SZ @ concat (map ?G [0..<k])"
    proof (cases b2)
      case False
      then have "?R = (False, (arr, sz0), ?p2)"
        using start b size by (simp add: dispatchGetArray_def)
      then have "tx (snd (snd ?R)) = tx p @ ?ST @ ?SZ"
        by simp
      with none show ?thesis
        by metis
    next
      case b2: True
      show ?thesis
      proof (cases v)
        case None
        then have "?R = (False, (arr, sz0), p3)"
          using start b size b2 gv by (simp add: dispatchGetArray_def)
        then have "tx (snd (snd ?R)) = tx p @ ?ST @ ?SZ"
          using p3 by simp
        with none show ?thesis
          by metis
      next
        case (Some sz)
        show ?thesis
        proof (cases "sz \<le> maxSize")
          case False
          then have "?R = (False, (arr, sz), p3)"
            using start b size b2 gv Some by (simp add: dispatchGetArray_def)
          then have "tx (snd (snd ?R)) = tx p @ ?ST @ ?SZ"
            using p3 by simp
          with none show ?thesis
            by metis
        next
          case True
          then have "snd (snd ?R) = snd (snd (dispatchGetArray_elements sg cmd sz 0 arr p3))"
            using start b size b2 gv Some
            by (simp add: dispatchGetArray_def split_beta)
          moreover from dispatchGetArray_elements_trace [OF p3(1), of sg cmd sz 0 arr]
          obtain k where "tx (snd (snd (dispatchGetArray_elements sg cmd sz 0 arr p3)))
              = tx p3 @ concat (map ?G [0..<k])"
            by auto
          ultimately have "tx (snd (snd ?R)) = tx p @ ?ST @ ?SZ @ concat (map ?G [0..<k])"
            using p3 by simp
          then show ?thesis
            by blast
        qed
      qed
    qed
    then obtain k where "sent p (snd (snd ?R)) = ?ST @ ?SZ @ concat (map ?G [0..<k])"
      by (auto simp: sent_def)
    with fstb show ?thesis
      by blast
  qed
qed

text \<open>
  Claim C7. On started protocol objects: when \<^verbatim>\<open>dispatchSetArray\<close> returns \<^verbatim>\<open>true\<close>, the
  last request it sent is the one that finishes the array. All that \<^verbatim>\<open>dispatchGetArray\<close>
  sends begins with the request that starts the array; what follows is the size request and
  then element requests in increasing order of the index, and nothing follows at all,
  so no element request either, unless the reply to the starting request matched.
\<close>

theorem array_exchange_order:
  assumes "started p" and "started q"
  shows "(fst (dispatchSetArray sg cmd pt sz p) \<longrightarrow>
            (\<exists>before. sent p (snd (dispatchSetArray sg cmd pt sz p))
                        = before @ array_finished_request cmd sz))
       \<and> (\<exists>rest k.
            sent q (snd (snd (dispatchGetArray sg' cmd' arr maxSize sz0 q)))
              = array_starting_request cmd' @ rest
            \<and> (rest = []
                \<or> rest = array_size_request cmd'
                     @ concat (map (array_get_element_request cmd') [0..<k]))
            \<and> (\<not> fst (checkReply cmd' q) \<longrightarrow>
                 rest = [] \<and> \<not> fst (dispatchGetArray sg' cmd' arr maxSize sz0 q)))"
proof -
  have "\<exists>before. sent p (snd (dispatchSetArray sg cmd pt sz p))
      = before @ array_finished_request cmd sz"
    if ok: "fst (dispatchSetArray sg cmd pt sz p)"
  proof -
    obtain replied p1 where cr: "checkReply cmd p = (replied, p1)"
      by (cases "checkReply cmd p")
    obtain maxSize :: "prot_size_t option" and p2 where gv: "getValue False p1 = (maxSize, p2)"
      by (cases "getValue False p1 :: prot_size_t option \<times> _")
    have fits: "replied \<and> (case maxSize of None \<Rightarrow> False | Some m \<Rightarrow> sz \<le> m)"
      using dispatchSetArray_refused [OF assms(1) cr gv, of sz sg pt] ok by blast
    then obtain m where "replied" and "maxSize = Some m" and "sz \<le> m"
      by (cases maxSize) auto
    with cr gv have cr': "checkReply cmd p = (True, p1)"
      and gv': "getValue False p1 = (Some m, p2)"
      by simp_all
    from dispatchSetArray_run [OF assms(1) cr' gv' \<open>sz \<le> m\<close>, of sg pt] ok
    have "sent p (snd (dispatchSetArray sg cmd pt sz p))
        = (array_size_request cmd
            @ concat (map (array_set_element_request sg cmd pt) [0..<unat sz]))
          @ array_finished_request cmd sz"
      by auto
    then show ?thesis
      by blast
  qed
  with dispatchGetArray_trace [OF assms(2), of sg' cmd' arr maxSize sz0]
  show ?thesis
    by blast
qed


subsection \<open>Scenario C of the specification\<close>

lemma getValue_host:
  assumes "started p" and "derived p = DeviceHexProtocol"
    and "PROT_TERM_CHAR \<notin> set bs" and "0 \<notin> set bs" and "bs \<noteq> []" and "length bs \<le> 9"
  shows "getValue sg (p\<lparr>rx := bs @ PROT_TERM_CHAR # rest\<rparr>)
           = (Some (readBuf_value sg bs), p\<lparr>rx := rest\<rparr>)"
proof -
  have "c_str ((store bs (replicate 10 0))[length bs := 0]) = bs"
    using assms by (intro c_str_stored) simp_all
  with assms show ?thesis
    by (auto simp: getValue_def readBufferUntilTerminator_def hasStarted_def
        GetSerialAnswer_text PROT_HEX_BUFF_SIZE_def Let_def)
qed

lemma checkReply_host:
  assumes "started p" and "derived p = DeviceHexProtocol"
    and "PROT_TERM_CHAR \<notin> set bs" and "0 \<notin> set bs" and "bs \<noteq> []" and "length bs \<le> 9"
  shows "checkReply cmd (p\<lparr>rx := bs @ PROT_TERM_CHAR # rest\<rparr>)
           = (readBuf_value False bs = cmd, p\<lparr>rx := rest\<rparr>)"
  by (simp add: checkReply_def getValue_host [OF assms])

lemma derived_startProtocol [simp]: "derived (startProtocol t inp (new_protocol c)) = c"
  by (simp add: startProtocol_def new_protocol_def)

lemma readBuf_value_4d: "readBuf_value False (ascii ''4d'') = (0x4d :: prot_cmd_t)"
  by (simp add: readBuf_value_def strtoul_def ascii_def isspace_def digit_value_def)

lemma readBuf_value_100: "readBuf_value False (ascii ''100'') = (0x100 :: prot_size_t)"
  by (simp add: readBuf_value_def strtoul_def ascii_def isspace_def digit_value_def)

lemma startProtocol_line:
  "startProtocol t inp (new_protocol c) = startProtocol t [] (new_protocol c)\<lparr>rx := inp\<rparr>"
  by (simp add: startProtocol_def new_protocol_def)

lemma scenario_C_replies:
  fixes H0 :: "unit HexProtocolBase"
  defines "H0 \<equiv> startProtocol () [] (new_protocol DeviceHexProtocol)"
  shows "checkReply 0x4d scenario_C_host
         = (True, H0\<lparr>rx := ascii ''100'' @ PROT_TERM_CHAR
                 # ascii ''4d'' @ PROT_TERM_CHAR # ascii ''4d'' @ PROT_TERM_CHAR
                 # ascii ''4d'' @ PROT_TERM_CHAR # ascii ''4d'' @ PROT_TERM_CHAR
                 # ascii ''4d'' @ [PROT_TERM_CHAR]\<rparr>)"
    and "getValue False (H0\<lparr>rx := ascii ''100'' @ PROT_TERM_CHAR
                 # ascii ''4d'' @ PROT_TERM_CHAR # ascii ''4d'' @ PROT_TERM_CHAR
                 # ascii ''4d'' @ PROT_TERM_CHAR # ascii ''4d'' @ PROT_TERM_CHAR
                 # ascii ''4d'' @ [PROT_TERM_CHAR]\<rparr>)
         = (Some (0x100 :: prot_size_t), H0\<lparr>rx := ascii ''4d'' @ PROT_TERM_CHAR
                 # ascii ''4d'' @ PROT_TERM_CHAR # ascii ''4d'' @ PROT_TERM_CHAR
                 # ascii ''4d'' @ PROT_TERM_CHAR # ascii ''4d'' @ [PROT_TERM_CHAR]\<rparr>)"
    and "fst (check_replies 0x4d (Suc (Suc (Suc (Suc (Suc 0)))))
           (H0\<lparr>rx := ascii ''4d'' @ PROT_TERM_CHAR
                 # ascii ''4d'' @ PROT_TERM_CHAR # ascii ''4d'' @ PROT_TERM_CHAR
                 # ascii ''4d'' @ PROT_TERM_CHAR # ascii ''4d'' @ [PROT_TERM_CHAR]\<rparr>))"
proof -
  have tc: "PROT_TERM_CHAR \<notin> set (ascii ''4d'')" "0 \<notin> set (ascii ''4d'')"
    "ascii ''4d'' \<noteq> []" "length (ascii ''4d'') \<le> 9"
    "PROT_TERM_CHAR \<notin> set (ascii ''100'')" "0 \<notin> set (ascii ''100'')"
    "ascii ''100'' \<noteq> []" "length (ascii ''100'') \<le> 9"
    by (simp_all add: ascii_def PROT_TERM_CHAR_def)
  have H0: "started H0" "derived H0 = DeviceHexProtocol"
    by (simp_all add: H0_def)
  note cr = checkReply_host [OF H0 tc(1-4), of "0x4d"]
  show "checkReply 0x4d scenario_C_host
         = (True, H0\<lparr>rx := ascii ''100'' @ PROT_TERM_CHAR
                 # ascii ''4d'' @ PROT_TERM_CHAR # ascii ''4d'' @ PROT_TERM_CHAR
                 # ascii ''4d'' @ PROT_TERM_CHAR # ascii ''4d'' @ PROT_TERM_CHAR
                 # ascii ''4d'' @ [PROT_TERM_CHAR]\<rparr>)"
    unfolding scenario_C_host_def startProtocol_line [of _ "_ @ _"] H0_def [symmetric]
    by (simp only: cr readBuf_value_4d simp_thms)
  show "getValue False (H0\<lparr>rx := ascii ''100'' @ PROT_TERM_CHAR
                 # ascii ''4d'' @ PROT_TERM_CHAR # ascii ''4d'' @ PROT_TERM_CHAR
                 # ascii ''4d'' @ PROT_TERM_CHAR # ascii ''4d'' @ PROT_TERM_CHAR
                 # ascii ''4d'' @ [PROT_TERM_CHAR]\<rparr>)
         = (Some (0x100 :: prot_size_t), H0\<lparr>rx := ascii ''4d'' @ PROT_TERM_CHAR
                 # ascii ''4d'' @ PROT_TERM_CHAR # ascii ''4d'' @ PROT_TERM_CHAR
                 # ascii ''4d'' @ PROT_TERM_CHAR # ascii ''4d'' @ [PROT_TERM_CHAR]\<rparr>)"
    by (simp only: getValue_host [OF H0 tc(5-8)] readBuf_value_100)
  have last: "checkReply 0x4d (H0\<lparr>rx := ascii ''4d'' @ [PROT_TERM_CHAR]\<rparr>) = (True, H0\<lparr>rx := []\<rparr>)"
    using cr [of "[]"] by (simp only: readBuf_value_4d simp_thms)
  show "fst (check_replies 0x4d (Suc (Suc (Suc (Suc (Suc 0)))))
           (H0\<lparr>rx := ascii ''4d'' @ PROT_TERM_CHAR
                 # ascii ''4d'' @ PROT_TERM_CHAR # ascii ''4d'' @ PROT_TERM_CHAR
                 # ascii ''4d'' @ PROT_TERM_CHAR # ascii ''4d'' @ [PROT_TERM_CHAR]\<rparr>))"
    by (simp only: check_replies.simps cr last readBuf_value_4d prod.case bool.case
        fst_conv simp_thms)
qed

lemma started_scenario_C_host: "started scenario_C_host"
  by (simp add: scenario_C_host_def)

lemma scenario_C_fits: "(4 :: prot_size_t) \<le> 0x100"
  by simp

lemma scenario_C_ok:
  "fst (dispatchSetArray False 0x4d [100, 110, 120, 130 :: 16 word] 4 scenario_C_host)"
proof -
  let ?p2 = "startProtocol () [] (new_protocol DeviceHexProtocol)
      \<lparr>rx := ascii ''4d'' @ PROT_TERM_CHAR
           # ascii ''4d'' @ PROT_TERM_CHAR # ascii ''4d'' @ PROT_TERM_CHAR
           # ascii ''4d'' @ PROT_TERM_CHAR # ascii ''4d'' @ [PROT_TERM_CHAR]\<rparr>"
  have four: "unat (4 :: prot_size_t) = Suc (Suc (Suc (Suc 0)))"
    by simp
  have five: "fst (check_replies 0x4d (Suc (Suc (Suc (Suc 0))) + 1) ?p2)"
    using scenario_C_replies(3) by (simp del: check_replies.simps)
  then have "fst (check_replies 0x4d (Suc (Suc (Suc (Suc 0)))) ?p2)"
    using check_replies_fail_more [of "0x4d" "Suc (Suc (Suc (Suc 0)))" ?p2 1] by blast
  with five dispatchSetArray_run [OF started_scenario_C_host scenario_C_replies(1,2)
      scenario_C_fits, where sg = False and pt = "[100, 110, 120, 130]"]
  show ?thesis
    unfolding four by blast
qed

theorem dispatchSetArray_exchange_witness:
  "started scenario_C_host
   \<and> unat (4 :: prot_size_t) = length [100, 110, 120, 130 :: 16 word]
   \<and> fst (dispatchSetArray False 0x4d [100, 110, 120, 130 :: 16 word] 4 scenario_C_host)
   \<and> sent scenario_C_host
        (snd (dispatchSetArray False 0x4d [100, 110, 120, 130 :: 16 word] 4 scenario_C_host))
       = 0x4d # ascii ''1'' @ [PROT_TERM_CHAR]
         @ 0x4d # ascii ''3'' @ [PROT_TERM_CHAR] @ ascii ''0'' @ [PROT_TERM_CHAR]
             @ ascii ''64'' @ [PROT_TERM_CHAR]
         @ 0x4d # ascii ''3'' @ [PROT_TERM_CHAR] @ ascii ''1'' @ [PROT_TERM_CHAR]
             @ ascii ''6e'' @ [PROT_TERM_CHAR]
         @ 0x4d # ascii ''3'' @ [PROT_TERM_CHAR] @ ascii ''2'' @ [PROT_TERM_CHAR]
             @ ascii ''78'' @ [PROT_TERM_CHAR]
         @ 0x4d # ascii ''3'' @ [PROT_TERM_CHAR] @ ascii ''3'' @ [PROT_TERM_CHAR]
             @ ascii ''82'' @ [PROT_TERM_CHAR]
         @ 0x4d # ascii ''4'' @ [PROT_TERM_CHAR] @ ascii ''4'' @ [PROT_TERM_CHAR]"
proof -
  let ?pt = "[100, 110, 120, 130 :: 16 word]"
  let ?res = "dispatchSetArray False 0x4d ?pt 4 scenario_C_host"
  have len: "unat (4 :: prot_size_t) = length ?pt"
    by simp
  note all = dispatchSetArray_exchange [OF started_scenario_C_host len,
      where cmd = "0x4d" and sg = False,
      unfolded scenario_C_replies(1,2) prod.case Let_def]
  have n: "length ?pt + 1 = Suc (Suc (Suc (Suc (Suc 0))))"
    by simp
  have ok: "fst ?res"
    using all [THEN conjunct2, THEN conjunct2, THEN conjunct1] scenario_C_replies(3)
    unfolding n by (simp del: check_replies.simps)
  with all [THEN conjunct2, THEN conjunct2, THEN conjunct2]
  have "sent scenario_C_host (snd ?res)
      = array_size_request 0x4d
        @ concat (map (array_set_element_request False 0x4d ?pt) [0..<length ?pt])
        @ array_finished_request 0x4d 4"
    by blast
  also have "\<dots> = 0x4d # ascii ''1'' @ [PROT_TERM_CHAR]
         @ 0x4d # ascii ''3'' @ [PROT_TERM_CHAR] @ ascii ''0'' @ [PROT_TERM_CHAR]
             @ ascii ''64'' @ [PROT_TERM_CHAR]
         @ 0x4d # ascii ''3'' @ [PROT_TERM_CHAR] @ ascii ''1'' @ [PROT_TERM_CHAR]
             @ ascii ''6e'' @ [PROT_TERM_CHAR]
         @ 0x4d # ascii ''3'' @ [PROT_TERM_CHAR] @ ascii ''2'' @ [PROT_TERM_CHAR]
             @ ascii ''78'' @ [PROT_TERM_CHAR]
         @ 0x4d # ascii ''3'' @ [PROT_TERM_CHAR] @ ascii ''3'' @ [PROT_TERM_CHAR]
             @ ascii ''82'' @ [PROT_TERM_CHAR]
         @ 0x4d # ascii ''4'' @ [PROT_TERM_CHAR] @ ascii ''4'' @ [PROT_TERM_CHAR]"
    by (simp add: array_size_request_def array_set_element_request_def
        array_finished_request_def wire_value_def writeBuf_text_def prot_ultohexstr_def
        ultoa16.simps hexdigit_def ascii_def SUBCMD_ARRAY_SIZE_def SUBCMD_ARRAY_ELEMENT_def
        SUBCMD_ARRAY_FINISHED_def)
  finally show ?thesis
    using started_scenario_C_host len ok by blast
qed

lemma silent_slave_no_reply:
  "\<not> fst (checkReply 0x4f (startProtocol () [] (new_protocol DeviceHexProtocol)))"
  by (simp add: checkReply_def getValue_def readBufferUntilTerminator_def hasStarted_def
      GetSerialAnswer_def startProtocol_def new_protocol_def)

theorem array_exchange_order_witness:
  "started scenario_C_host
   \<and> started (startProtocol () [] (new_protocol DeviceHexProtocol))
   \<and> fst (dispatchSetArray False 0x4d [100, 110, 120, 130 :: 16 word] 4 scenario_C_host)
   \<and> (\<exists>before. sent scenario_C_host
          (snd (dispatchSetArray False 0x4d [100, 110, 120, 130 :: 16 word] 4 scenario_C_host))
        = before @ array_finished_request 0x4d 4)
   \<and> \<not> fst (checkReply 0x4f (startProtocol () [] (new_protocol DeviceHexProtocol)))
   \<and> sent (startProtocol () [] (new_protocol DeviceHexProtocol))
        (snd (snd (dispatchGetArray False 0x4f ([] :: 16 word list) 8 0
           (startProtocol () [] (new_protocol DeviceHexProtocol)))))
       = array_starting_request 0x4f
   \<and> \<not> fst (dispatchGetArray False 0x4f ([] :: 16 word list) 8 0
           (startProtocol () [] (new_protocol DeviceHexProtocol)))"
proof -
  have q: "started (startProtocol () [] (new_protocol DeviceHexProtocol) :: unit HexProtocolBase)"
    by simp
  from array_exchange_order [OF started_scenario_C_host q,
      where sg = False and cmd = "0x4d" and pt = "[100, 110, 120, 130 :: 16 word]" and sz = 4
        and sg' = False and cmd' = "0x4f" and arr = "[] :: 16 word list" and maxSize = 8
        and ?sz0.0 = 0]
    scenario_C_ok silent_slave_no_reply started_scenario_C_host q
  show ?thesis
    by auto
qed

end
